theory Spec2Isabelle
  imports Complex_Main "HOL-Library.Word" "HOL-Library.Log_Nat"
begin

unbundle bit_operations_syntax

chapter \<open>The embedding\<close>

section \<open>Common types\<close>

type_synonym u8 = "8 word"

type_synonym u16 = "16 word"

type_synonym u32 = "32 word"

type_synonym u64 = "64 word"

text \<open>\<^verbatim>\<open>enum class AgentMode { Sentinel, Diagnostic }\<close> (mode_controller.h).\<close>

datatype AgentMode = Sentinel | Diagnostic

section \<open>Token-bucket updates (bucket_update.h, bucket_update.cpp)\<close>

text \<open>
  The three structs of bucket_update.h. The request and the state both have fields called
  \<^verbatim>\<open>sentinel_budget\<close>, \<^verbatim>\<open>diagnostic_budget\<close> and \<^verbatim>\<open>hard_drop_ns\<close>; the request's
  fields carry the prefix \<open>req_\<close> here.
\<close>

record BucketUpdateRequest =
  has_sentinel :: bool
  req_sentinel_budget :: u64
  has_diagnostic :: bool
  req_diagnostic_budget :: u64
  has_hard_drop :: bool
  req_hard_drop_ns :: u64

record BucketState =
  sentinel_budget :: u64
  diagnostic_budget :: u64
  hard_drop_ns :: u64

record BucketUpdateOutcome =
  reprogram_required :: bool
  active_budget :: u64

text \<open>
  \<^verbatim>\<open>ApplyBucketUpdate(req, mode, state)\<close> mutates \<^verbatim>\<open>state\<close> and returns the outcome; the
  model returns both. The local flags \<^verbatim>\<open>sentinel_changed\<close>, \<^verbatim>\<open>diagnostic_changed\<close>,
  \<^verbatim>\<open>diag_auto_adjusted\<close> and \<^verbatim>\<open>drop_changed\<close> are the source's.
\<close>

definition ApplyBucketUpdate ::
  "BucketUpdateRequest \<Rightarrow> AgentMode \<Rightarrow> BucketState \<Rightarrow> BucketUpdateOutcome \<times> BucketState" where
  "ApplyBucketUpdate req mode state =
    (let sentinel_changed = (has_sentinel req \<and> req_sentinel_budget req > 0);
         s1 = (if sentinel_changed
               then state\<lparr>sentinel_budget := req_sentinel_budget req\<rparr> else state);
         diagnostic_changed = (has_diagnostic req \<and> req_diagnostic_budget req > 0);
         diag_auto_adjusted =
           (\<not> diagnostic_changed \<and> sentinel_changed \<and> diagnostic_budget s1 < sentinel_budget s1);
         s2 = (if diagnostic_changed
               then s1\<lparr>diagnostic_budget := req_diagnostic_budget req\<rparr>
               else if diag_auto_adjusted
               then s1\<lparr>diagnostic_budget := sentinel_budget s1\<rparr>
               else s1);
         drop_changed = (has_hard_drop req \<and> req_hard_drop_ns req > 0);
         s3 = (if drop_changed then s2\<lparr>hard_drop_ns := req_hard_drop_ns req\<rparr> else s2);
         active = (if mode = Sentinel then sentinel_budget s3 else diagnostic_budget s3);
         active_budget_changed =
           ((mode = Sentinel \<and> sentinel_changed) \<or>
            (mode = Diagnostic \<and> (diagnostic_changed \<or> diag_auto_adjusted)))
     in (\<lparr>reprogram_required = (drop_changed \<or> active_budget_changed),
          active_budget = active\<rparr>, s3))"

text \<open>
  \<^verbatim>\<open>AgentRuntime::HandleBucketUpdate\<close> applies each request to the one \<^verbatim>\<open>bucket_state_\<close>
  under the mode current at that moment; a sequence of requests is a list of
  (request, mode) pairs applied from left to right.
\<close>

fun apply_updates :: "(BucketUpdateRequest \<times> AgentMode) list \<Rightarrow> BucketState \<Rightarrow> BucketState" where
  "apply_updates [] state = state"
| "apply_updates ((req, mode) # rest) state =
     apply_updates rest (snd (ApplyBucketUpdate req mode state))"

text \<open>A request sets a field when it carries it with a positive value.\<close>

definition sets_sentinel :: "BucketUpdateRequest \<Rightarrow> bool" where
  "sets_sentinel req = (has_sentinel req \<and> req_sentinel_budget req > 0)"

definition sets_diagnostic :: "BucketUpdateRequest \<Rightarrow> bool" where
  "sets_diagnostic req = (has_diagnostic req \<and> req_diagnostic_budget req > 0)"

definition sets_hard_drop :: "BucketUpdateRequest \<Rightarrow> bool" where
  "sets_hard_drop req = (has_hard_drop req \<and> req_hard_drop_ns req > 0)"

definition no_request :: BucketUpdateRequest where
  "no_request = \<lparr>has_sentinel = False, req_sentinel_budget = 0,
                 has_diagnostic = False, req_diagnostic_budget = 0,
                 has_hard_drop = False, req_hard_drop_ns = 0\<rparr>"

definition budget_of :: "AgentMode \<Rightarrow> BucketState \<Rightarrow> u64" where
  "budget_of mode state =
     (if mode = Sentinel then sentinel_budget state else diagnostic_budget state)"

section \<open>Mode controller (config.h, anomaly_signal.h, mode_controller.h, mode_controller.cpp)\<close>

text \<open>
  The thresholds and ratios are \<^verbatim>\<open>double\<close>s in the source. They are only stored and
  compared, never computed with, so they are modelled as reals: the comparison of two
  finite doubles is the comparison of the reals they denote. \<^verbatim>\<open>anomaly_quiet_period\<close> is a
  \<^verbatim>\<open>std::chrono::milliseconds\<close>; the model keeps its signed count.
\<close>

record ModeThresholds =
  sentinel_to_diag :: real
  diag_to_sentinel :: real
  throughput_ratio_trigger :: real
  latency_ratio_trigger :: real
  anomaly_quiet_period :: int

datatype AnomalyType = ThroughputDrop | LatencySpike

record AnomalySignal =
  type :: AnomalyType
  ratio :: real
  "value" :: real
  timestamp_ns :: u64

record ModeController =
  mc_thresholds :: ModeThresholds
  mc_mode :: AgentMode
  mc_last_anomaly_ns :: u64
  mc_last_throughput_ratio :: real
  mc_last_latency_ratio :: real

text \<open>The constructor: the given thresholds and the members' default initialisers.\<close>

definition ModeController_init :: "ModeThresholds \<Rightarrow> ModeController" where
  "ModeController_init thresholds =
     \<lparr>mc_thresholds = thresholds, mc_mode = Sentinel, mc_last_anomaly_ns = 0,
      mc_last_throughput_ratio = 1, mc_last_latency_ratio = 1\<rparr>"

text \<open>The default thresholds of config.h.\<close>

definition default_thresholds :: ModeThresholds where
  "default_thresholds =
     \<lparr>sentinel_to_diag = 110 / 100, diag_to_sentinel = 102 / 100,
      throughput_ratio_trigger = 85 / 100, latency_ratio_trigger = 125 / 100,
      anomaly_quiet_period = 5000\<rparr>"

text \<open>
  \<^verbatim>\<open>NowNs()\<close> reads the steady clock; every function that calls it takes the reading as the
  argument \<open>now\<close>. \<^verbatim>\<open>static_cast<uint64_t>(count) * 1'000'000ULL\<close> is a 64-bit product.
\<close>

definition AnomalyHoldActive :: "ModeController \<Rightarrow> u64 \<Rightarrow> bool" where
  "AnomalyHoldActive mc now =
     (let hold_ns = (word_of_int (anomaly_quiet_period (mc_thresholds mc)) :: u64) * 1000000
      in if hold_ns = 0 then False
         else let last = mc_last_anomaly_ns mc
              in if last = 0 then False
                 else now \<ge> last \<and> now - last < hold_ns)"

definition Update :: "ModeController \<Rightarrow> real \<Rightarrow> u64 \<Rightarrow> AgentMode \<times> ModeController" where
  "Update mc load_ratio now =
     (let cur = mc_mode mc;
          mc' = (if cur = Sentinel \<and> load_ratio > sentinel_to_diag (mc_thresholds mc)
                 then mc\<lparr>mc_mode := Diagnostic\<rparr>
                 else if cur = Diagnostic
                 then (if \<not> AnomalyHoldActive mc now \<and> load_ratio < diag_to_sentinel (mc_thresholds mc)
                       then mc\<lparr>mc_mode := Sentinel\<rparr> else mc)
                 else mc)
      in (mc_mode mc', mc'))"

definition NotifyAnomaly :: "ModeController \<Rightarrow> AnomalySignal \<Rightarrow> u64 \<Rightarrow> AgentMode \<times> ModeController" where
  "NotifyAnomaly mc signal now =
     (let ts = (if timestamp_ns signal \<noteq> 0 then timestamp_ns signal else now);
          mc1 = mc\<lparr>mc_last_anomaly_ns := ts\<rparr>;
          mc2 = (case type signal of
                   ThroughputDrop \<Rightarrow>
                     (let mc' = mc1\<lparr>mc_last_throughput_ratio := ratio signal\<rparr>;
                          trigger = throughput_ratio_trigger (mc_thresholds mc)
                      in if ratio signal > 0 \<and> ratio signal < trigger
                         then mc'\<lparr>mc_mode := Diagnostic\<rparr> else mc')
                 | LatencySpike \<Rightarrow>
                     (let mc' = mc1\<lparr>mc_last_latency_ratio := ratio signal\<rparr>
                      in if ratio signal > latency_ratio_trigger (mc_thresholds mc)
                         then mc'\<lparr>mc_mode := Diagnostic\<rparr> else mc'))
      in (mc_mode mc2, mc2))"

section \<open>Samples (ms_common.h, sample.h)\<close>

text \<open>
  \<^verbatim>\<open>struct ms_lbr_entry { __u64 from; __u64 to; }\<close> and \<^verbatim>\<open>struct ms_sample\<close>;
  \<^verbatim>\<open>Sample\<close> is \<^verbatim>\<open>ms_sample\<close>, \<^verbatim>\<open>LbrStack\<close> is a vector of entries. The inline array
  \<^verbatim>\<open>lbr[MS_LBR_MAX]\<close> of the sample is a list here.
\<close>

record LbrEntry =
  lbr_from :: u64
  lbr_to :: u64

type_synonym LbrStack = "LbrEntry list"

record Sample =
  tsc :: u64
  cpu :: u32
  pid :: u32
  tid :: u32
  pmu_event :: u32
  ip :: u64
  data_addr :: u64
  flow_id :: u64
  gso_segs :: u32
  ingress_ifindex :: u16
  numa_node :: u16
  l4_proto :: u8
  direction :: u8
  lbr_nr :: u8
  pad0 :: u8
  lbr :: "LbrEntry list"

text \<open>\<^verbatim>\<open>Sample s{}\<close>: every field zero.\<close>

definition zero_sample :: Sample where
  "zero_sample = \<lparr>tsc = 0, cpu = 0, pid = 0, tid = 0, pmu_event = 0, ip = 0, data_addr = 0,
     flow_id = 0, gso_segs = 0, ingress_ifindex = 0, numa_node = 0, l4_proto = 0,
     direction = 0, lbr_nr = 0, pad0 = 0, lbr = []\<rparr>"

section \<open>Monitoring targets (control_messages.h, monitoring_targets.h, monitoring_targets.cpp)\<close>

datatype TargetType = All | Cgroup | Process | Flow

















section \<open>Skew adjuster (skew_adjuster.h, skew_adjuster.cpp)\<close>

text \<open>
  \<^verbatim>\<open>struct Bundle { Sample sample; LbrStack stack; }\<close>; a \<^verbatim>\<open>CpuWindow\<close> holds one deque of
  bundles, a list here, oldest first. \<^verbatim>\<open>per_cpu_\<close> is a vector of windows indexed by CPU.
  The sizes (\<^verbatim>\<open>size_t\<close>) are natural numbers: they are only compared with lengths.
\<close>

record Bundle =
  bundle_sample :: Sample
  bundle_stack :: LbrStack

type_synonym CpuWindow = "Bundle list"

record SkewAdjuster =
  tolerance_ns :: u64
  max_window :: nat
  per_cpu :: "CpuWindow list"

definition MS_FLOW_SKID_NS :: u64 where
  "MS_FLOW_SKID_NS = 2000"

definition AbsDiff :: "u64 \<Rightarrow> u64 \<Rightarrow> u64" where
  "AbsDiff a b = (if a > b then a - b else b - a)"

text \<open>The constructor replaces a zero tolerance and a window below 2 by the defaults.\<close>

definition SkewAdjuster_init :: "u64 \<Rightarrow> nat \<Rightarrow> SkewAdjuster" where
  "SkewAdjuster_init tol mw =
     \<lparr>tolerance_ns = (if tol \<noteq> 0 then tol else MS_FLOW_SKID_NS),
      max_window = (if mw \<ge> 2 then mw else 2),
      per_cpu = []\<rparr>"

definition bundle_flow :: "Bundle \<Rightarrow> u64" where
  "bundle_flow b = flow_id (bundle_sample b)"

definition bundle_tsc :: "Bundle \<Rightarrow> u64" where
  "bundle_tsc b = tsc (bundle_sample b)"

definition set_flow :: "u64 \<Rightarrow> Bundle \<Rightarrow> Bundle" where
  "set_flow f b = b\<lparr>bundle_sample := (bundle_sample b)\<lparr>flow_id := f\<rparr>\<rparr>"

text \<open>
  The two inner loops of \<^verbatim>\<open>AdjustWindow\<close> have the same body. \<open>scan\<close> is that loop over
  the candidates in the order the loop visits them: a candidate without a flow is skipped
  (\<^verbatim>\<open>continue\<close>), the first candidate with a flow beyond the tolerance ends the loop
  (\<^verbatim>\<open>break\<close>), and a candidate strictly nearer than the best so far replaces it. The pair
  is (\<^verbatim>\<open>best_delta\<close>, \<^verbatim>\<open>best_flow\<close>).
\<close>

fun scan :: "u64 \<Rightarrow> u64 \<Rightarrow> Bundle list \<Rightarrow> u64 \<times> u64 \<Rightarrow> u64 \<times> u64" where
  "scan tol t [] best = best"
| "scan tol t (candidate # rest) (best_delta, best_flow) =
     (if bundle_flow candidate = 0 then scan tol t rest (best_delta, best_flow)
      else let delta = AbsDiff (bundle_tsc candidate) t
           in if delta > tol then (best_delta, best_flow)
              else if delta < best_delta then scan tol t rest (delta, bundle_flow candidate)
              else scan tol t rest (best_delta, best_flow))"

text \<open>
  The body of the outer loop for index \<open>i\<close>: the backward loop visits \<open>i - 1, ..., 0\<close>, the
  forward loop \<open>i + 1, ..., n - 1\<close>, starting from \<^verbatim>\<open>best_flow = 0\<close> and
  \<^verbatim>\<open>best_delta = UINT64_MAX\<close>. The caller keeps \<open>i\<close> below the length.
\<close>

definition best_for :: "u64 \<Rightarrow> Bundle list \<Rightarrow> nat \<Rightarrow> u64 \<times> u64" where
  "best_for tol entries i =
     scan tol (bundle_tsc (entries ! i)) (drop (Suc i) entries)
       (scan tol (bundle_tsc (entries ! i)) (rev (take i entries)) (- 1, 0))"

definition adjust_entry :: "u64 \<Rightarrow> nat \<Rightarrow> Bundle list \<Rightarrow> Bundle list" where
  "adjust_entry tol i entries =
     (if bundle_flow (entries ! i) \<noteq> 0 then entries
      else let best_flow = snd (best_for tol entries i)
           in if best_flow \<noteq> 0 then entries[i := set_flow best_flow (entries ! i)]
              else entries)"

definition AdjustWindow :: "u64 \<Rightarrow> CpuWindow \<Rightarrow> CpuWindow" where
  "AdjustWindow tol entries =
     (if length entries < 2 then entries
      else fold (adjust_entry tol) [0 ..< length entries] entries)"

text \<open>\<^verbatim>\<open>DrainReady\<close>: its \<^verbatim>\<open>while\<close> loop, then the test against \<^verbatim>\<open>max_window_\<close>.\<close>

fun drain_to_one :: "CpuWindow \<Rightarrow> Bundle list \<Rightarrow> CpuWindow \<times> Bundle list" where
  "drain_to_one (a # b # rest) out_ready = drain_to_one (b # rest) (out_ready @ [a])"
| "drain_to_one entries out_ready = (entries, out_ready)"

definition DrainReady :: "nat \<Rightarrow> CpuWindow \<Rightarrow> Bundle list \<Rightarrow> CpuWindow \<times> Bundle list" where
  "DrainReady mw entries out_ready =
     (case drain_to_one entries out_ready of
        (a # rest, out1) \<Rightarrow> if length (a # rest) > mw then (rest, out1 @ [a]) else (a # rest, out1)
      | ([], out1) \<Rightarrow> ([], out1))"

fun DrainAll :: "CpuWindow \<Rightarrow> Bundle list \<Rightarrow> CpuWindow \<times> Bundle list" where
  "DrainAll [] out_ready = ([], out_ready)"
| "DrainAll (a # rest) out_ready = DrainAll rest (out_ready @ [a])"

definition EnsureCpu :: "u32 \<Rightarrow> CpuWindow list \<Rightarrow> CpuWindow list" where
  "EnsureCpu c windows =
     (if unat c \<ge> length windows
      then windows @ replicate (unat c + 1 - length windows) []
      else windows)"

text \<open>
  \<^verbatim>\<open>Process\<close> and \<^verbatim>\<open>Flush\<close> return the new adjuster and the bundles handed to the callback,
  in order. \<open>has_emit\<close> tells whether the callback is set; without it both return at once.
\<close>

definition Process :: "SkewAdjuster \<Rightarrow> Sample \<Rightarrow> LbrStack \<Rightarrow> bool \<Rightarrow> SkewAdjuster \<times> Bundle list" where
  "Process sa smp stk has_emit =
     (if \<not> has_emit then (sa, [])
      else let windows = EnsureCpu (cpu smp) (per_cpu sa);
               window = windows ! unat (cpu smp) @ [\<lparr>bundle_sample = smp, bundle_stack = stk\<rparr>];
               (window', ready) = DrainReady (max_window sa) (AdjustWindow (tolerance_ns sa) window) []
           in (sa\<lparr>per_cpu := windows[unat (cpu smp) := window']\<rparr>, ready))"

fun flush_windows :: "CpuWindow list \<Rightarrow> Bundle list \<Rightarrow> CpuWindow list \<times> Bundle list" where
  "flush_windows [] ready = ([], ready)"
| "flush_windows (window # rest) ready =
     (let (window', ready1) = DrainAll window ready;
          (rest', ready2) = flush_windows rest ready1
      in (window' # rest', ready2))"

definition SkewAdjuster_Flush :: "SkewAdjuster \<Rightarrow> bool \<Rightarrow> SkewAdjuster \<times> Bundle list" where
  "SkewAdjuster_Flush sa has_emit =
     (if \<not> has_emit then (sa, [])
      else let (windows, ready) = flush_windows (per_cpu sa) []
           in (sa\<lparr>per_cpu := windows\<rparr>, ready))"

text \<open>A run: samples pushed in order, then a final flush; all emissions in order.\<close>

fun process_all :: "SkewAdjuster \<Rightarrow> (Sample \<times> LbrStack) list \<Rightarrow> SkewAdjuster \<times> Bundle list" where
  "process_all sa [] = (sa, [])"
| "process_all sa ((smp, stk) # rest) =
     (let (sa1, ready1) = Process sa smp stk True;
          (sa2, ready2) = process_all sa1 rest
      in (sa2, ready1 @ ready2))"

definition run_and_flush :: "SkewAdjuster \<Rightarrow> (Sample \<times> LbrStack) list \<Rightarrow> Bundle list" where
  "run_and_flush sa inputs =
     (let (sa1, ready1) = process_all sa inputs;
          (sa2, ready2) = SkewAdjuster_Flush sa1 True
      in ready1 @ ready2)"

text \<open>
  The window of the repository's test, the first sample carrying a pid, an address and a
  branch stack.
\<close>

definition test_window :: CpuWindow where
  "test_window =
     [\<lparr>bundle_sample = zero_sample\<lparr>tsc := 100, cpu := 0, pid := 7, ip := 4660, flow_id := 0\<rparr>,
       bundle_stack = [\<lparr>lbr_from = 1, lbr_to = 2\<rparr>]\<rparr>,
      \<lparr>bundle_sample = zero_sample\<lparr>tsc := 120, cpu := 0, flow_id := 42\<rparr>, bundle_stack = []\<rparr>]"

text \<open>
  The words of the spec. In one direction from an entry with timestamp \<open>t\<close>, the
  neighbours in reach are the entries that carry a flow, nearest position first, up to
  the first whose timestamp differs from \<open>t\<close> by more than the tolerance. The neighbours
  of entry \<open>i\<close> are those in reach before it, then those in reach after it.
\<close>

definition in_reach :: "u64 \<Rightarrow> u64 \<Rightarrow> Bundle list \<Rightarrow> Bundle list" where
  "in_reach tol t cands =
     takeWhile (\<lambda>c. AbsDiff (bundle_tsc c) t \<le> tol) (filter (\<lambda>c. bundle_flow c \<noteq> 0) cands)"

definition neighbours :: "u64 \<Rightarrow> Bundle list \<Rightarrow> nat \<Rightarrow> Bundle list" where
  "neighbours tol entries i =
     in_reach tol (bundle_tsc (entries ! i)) (rev (take i entries))
     @ in_reach tol (bundle_tsc (entries ! i)) (drop (Suc i) entries)"

text \<open>The window when the outer loop of \<^verbatim>\<open>AdjustWindow\<close> reaches index \<open>i\<close>.\<close>

definition before_turn :: "u64 \<Rightarrow> Bundle list \<Rightarrow> nat \<Rightarrow> Bundle list" where
  "before_turn tol entries i = fold (adjust_entry tol) [0 ..< i] entries"

text \<open>Keeping the strictly nearer candidate, over a list of candidates.\<close>

fun pick :: "u64 \<Rightarrow> Bundle list \<Rightarrow> u64 \<times> u64 \<Rightarrow> u64 \<times> u64" where
  "pick t [] best = best"
| "pick t (c # cs) (best_delta, best_flow) =
     (if AbsDiff (bundle_tsc c) t < best_delta
      then pick t cs (AbsDiff (bundle_tsc c) t, bundle_flow c)
      else pick t cs (best_delta, best_flow))"

section \<open>Aggregator (config.h, interference.h, aggregator.h, aggregator.cpp)\<close>

text \<open>
  \<^verbatim>\<open>norm_cost\<close> and \<^verbatim>\<open>sample_scale_\<close> are \<^verbatim>\<open>double\<close>s; the model computes with reals, that
  is, with the values the doubles denote and without rounding. The sample counter is the
  64-bit counter of the source. The fields of \<^verbatim>\<open>AggregationKey\<close> that share a name with
  a field of the sample carry the prefix \<open>key_\<close>.
\<close>

record AggregatedValue =
  samples :: u64
  norm_cost :: real

record AggregationKey =
  key_flow_id :: u64
  function_hash :: u64
  callstack_id :: u64
  data_object_id :: u64
  key_pmu_event :: u32
  key_numa_node :: u16
  interference_class :: u8
  key_direction :: u8
  bucket :: u64

record AggregatorConfig =
  time_window_ns :: u64
  max_entries :: nat

text \<open>
  The symbolizer is an external collaborator, reached through a pointer that may be null.
  The model takes the three queries the aggregator makes as functions.
\<close>

record Symbolizer =
  InternFunction :: "u32 \<Rightarrow> u64 \<Rightarrow> u64"
  InternStack :: "u32 \<Rightarrow> u64 \<Rightarrow> LbrStack \<Rightarrow> u64"
  InternDataObject :: "u32 \<Rightarrow> u64 \<Rightarrow> u64"

text \<open>
  \<^verbatim>\<open>table_\<close> is an \<^verbatim>\<open>unordered_map\<close>: a list of (key, value) pairs with distinct keys,
  in the order in which the map iterates.
\<close>

type_synonym agg_table = "(AggregationKey \<times> AggregatedValue) list"

record Aggregator =
  agg_cfg :: AggregatorConfig
  agg_symbolizer :: "Symbolizer option"
  agg_table :: agg_table
  sample_scale :: real

definition Aggregator_init :: "AggregatorConfig \<Rightarrow> Aggregator" where
  "Aggregator_init cfg =
     \<lparr>agg_cfg = cfg, agg_symbolizer = None, agg_table = [], sample_scale = 1\<rparr>"

definition SetSampleScale :: "real \<Rightarrow> Aggregator \<Rightarrow> Aggregator" where
  "SetSampleScale scale agg = agg\<lparr>sample_scale := (if scale \<le> 0 then 1 else scale)\<rparr>"

definition Bucketize :: "Aggregator \<Rightarrow> u64 \<Rightarrow> u64" where
  "Bucketize agg t =
     (if time_window_ns (agg_cfg agg) = 0 then t else t div time_window_ns (agg_cfg agg))"

definition Aggregator_InternFunction :: "Aggregator \<Rightarrow> u32 \<Rightarrow> u64 \<Rightarrow> LbrStack \<Rightarrow> u64" where
  "Aggregator_InternFunction agg p addr stk =
     (case agg_symbolizer agg of None \<Rightarrow> addr | Some symb \<Rightarrow> InternFunction symb p addr)"

definition InternCallstack :: "Aggregator \<Rightarrow> u32 \<Rightarrow> u64 \<Rightarrow> LbrStack \<Rightarrow> u64" where
  "InternCallstack agg p addr stk =
     (case agg_symbolizer agg of None \<Rightarrow> addr | Some symb \<Rightarrow> InternStack symb p addr stk)"

definition Aggregator_InternDataObject :: "Aggregator \<Rightarrow> u32 \<Rightarrow> u64 \<Rightarrow> u64" where
  "Aggregator_InternDataObject agg p addr =
     (case agg_symbolizer agg of
        None \<Rightarrow> 0
      | Some symb \<Rightarrow> if addr = 0 then 0 else InternDataObject symb p addr)"

text \<open>\<^verbatim>\<open>ClassifyEvent\<close> (interference.cpp), with the values of \<^verbatim>\<open>InterferenceClass\<close>.\<close>

definition ClassifyEvent :: "u32 \<Rightarrow> u8" where
  "ClassifyEvent evt =
     (if evt = 1 then 0
      else if evt = 2 \<or> evt = 3 then 1
      else if evt = 4 \<or> evt = 5 then 2
      else if evt = 6 \<or> evt = 7 then 3
      else 255)"

definition EventClass :: "u32 \<Rightarrow> u8" where
  "EventClass evt = ClassifyEvent evt"

text \<open>The key that \<^verbatim>\<open>AddSample\<close> builds, and the weight it computes.\<close>

definition make_key :: "Aggregator \<Rightarrow> Sample \<Rightarrow> LbrStack \<Rightarrow> AggregationKey" where
  "make_key agg smp stk =
     \<lparr>key_flow_id = flow_id smp,
      function_hash = Aggregator_InternFunction agg (pid smp) (ip smp) stk,
      callstack_id = InternCallstack agg (pid smp) (ip smp) stk,
      data_object_id = Aggregator_InternDataObject agg (pid smp) (data_addr smp),
      key_pmu_event = pmu_event smp,
      key_numa_node = numa_node smp,
      interference_class = EventClass (pmu_event smp),
      key_direction = direction smp,
      bucket = Bucketize agg (tsc smp)\<rparr>"

definition sample_weight :: "Aggregator \<Rightarrow> Sample \<Rightarrow> real" where
  "sample_weight agg smp =
     (if gso_segs smp > 1 then sample_scale agg / real (unat (gso_segs smp))
      else sample_scale agg)"

text \<open>
  \<^verbatim>\<open>auto &slot = table_[key]; slot.samples += 1; slot.norm_cost += weight;\<close>: a key
  that is not in the table enters it with a zero value first.
\<close>

fun bump_slot :: "AggregationKey \<Rightarrow> real \<Rightarrow> agg_table \<Rightarrow> agg_table" where
  "bump_slot k w [] = [(k, \<lparr>samples = 0 + 1, norm_cost = 0 + w\<rparr>)]"
| "bump_slot k w ((k', v) # rest) =
     (if k' = k then (k', v\<lparr>samples := samples v + 1, norm_cost := norm_cost v + w\<rparr>) # rest
      else (k', v) # bump_slot k w rest)"

definition AddSample :: "Aggregator \<Rightarrow> Sample \<Rightarrow> LbrStack \<Rightarrow> Aggregator" where
  "AddSample agg smp stk =
     (let key = make_key agg smp stk;
          weight = sample_weight agg smp;
          table1 = bump_slot key weight (agg_table agg)
      in if length table1 > max_entries (agg_cfg agg) then agg\<lparr>agg_table := []\<rparr>
         else agg\<lparr>agg_table := table1\<rparr>)"

text \<open>
  \<^verbatim>\<open>Flush\<close> returns the new aggregator, the calls of the callback in order, and the count
  \<^verbatim>\<open>emitted\<close>, a \<^verbatim>\<open>size_t\<close> that the loop adds the 64-bit counters to.
\<close>

fun emitted_loop :: "agg_table \<Rightarrow> u64 \<Rightarrow> u64" where
  "emitted_loop [] emitted = emitted"
| "emitted_loop ((k, v) # rest) emitted = emitted_loop rest (emitted + samples v)"

definition Aggregator_Flush :: "Aggregator \<Rightarrow> Aggregator \<times> agg_table \<times> u64" where
  "Aggregator_Flush agg =
     (let snapshot = agg_table agg
      in (agg\<lparr>agg_table := []\<rparr>, snapshot, emitted_loop snapshot 0))"

text \<open>A stream of samples added one after the other.\<close>

fun add_all :: "Aggregator \<Rightarrow> (Sample \<times> LbrStack) list \<Rightarrow> Aggregator" where
  "add_all agg [] = agg"
| "add_all agg ((smp, stk) # rest) = add_all (AddSample agg smp stk) rest"

text \<open>The totals over a table: the counters read as numbers, and the costs.\<close>

definition samples_total :: "agg_table \<Rightarrow> nat" where
  "samples_total t = sum_list (map (\<lambda>kv. unat (samples (snd kv))) t)"



text \<open>The keys of a stream of samples.\<close>

definition keys_of :: "Aggregator \<Rightarrow> (Sample \<times> LbrStack) list \<Rightarrow> AggregationKey list" where
  "keys_of agg ss = map (\<lambda>p. make_key agg (fst p) (snd p)) ss"

text \<open>An aggregator with room for one entry.\<close>

definition small_aggregator :: Aggregator where
  "small_aggregator = Aggregator_init \<lparr>time_window_ns = 100, max_entries = 1\<rparr>"

text \<open>An aggregator with room for two entries, and three samples on two flows.\<close>

definition roomy_aggregator :: Aggregator where
  "roomy_aggregator = Aggregator_init \<lparr>time_window_ns = 100, max_entries = 2\<rparr>"

definition three_samples :: "(Sample \<times> LbrStack) list" where
  "three_samples =
     [(zero_sample\<lparr>flow_id := 1, gso_segs := 1\<rparr>, []),
      (zero_sample\<lparr>flow_id := 2, gso_segs := 1\<rparr>, []),
      (zero_sample\<lparr>flow_id := 1, gso_segs := 1\<rparr>, [])]"

section \<open>False-sharing detector (symbolizer.h, fs_detector.h, fs_detector.cpp)\<close>

text \<open>
  \<^verbatim>\<open>struct DataObject\<close> (symbolizer.h), \<^verbatim>\<open>struct FalseSharingFinding\<close> and the private
  \<^verbatim>\<open>struct Stats\<close> (fs_detector.h). Fields are prefixed where the name is taken:
  \<open>obj_\<close> for the data object, \<open>finding_\<close> for the two fields of the finding that the
  statistics have too. \<^verbatim>\<open>pid_hits\<close> and \<^verbatim>\<open>table_\<close> are \<^verbatim>\<open>unordered_map\<close>s: lists of
  pairs with distinct keys, in iteration order.
\<close>

record DataObject =
  obj_mapping :: string
  obj_base :: u64
  obj_offset :: u64
  obj_permissions :: string
  obj_name :: string
  obj_type :: string
  obj_size :: u64

definition empty_object :: DataObject where
  "empty_object = \<lparr>obj_mapping = [], obj_base = 0, obj_offset = 0, obj_permissions = [],
     obj_name = [], obj_type = [], obj_size = 0\<rparr>"

record FalseSharingFinding =
  line_addr :: u64
  finding_total_hits :: u64
  finding_cpu_hits :: "u64 list"
  dominant_pid :: u32
  object :: DataObject

record Stats =
  total_hits :: u64
  last_tsc :: u64
  cpu_hits :: "u64 list"
  pid_hits :: "(u32 \<times> u64) list"

definition empty_stats :: Stats where
  "empty_stats = \<lparr>total_hits = 0, last_tsc = 0, cpu_hits = [], pid_hits = []\<rparr>"

text \<open>
  The detector. Of the symbolizer it uses \<^verbatim>\<open>ResolveData\<close> only, a function here; the
  pointer may be null.
\<close>

record FalseSharingDetector =
  window_ns :: u64
  threshold :: u64
  fs_table :: "(u64 \<times> Stats) list"
  fs_symbolizer :: "(u32 \<Rightarrow> u64 \<Rightarrow> DataObject) option"

definition FalseSharingDetector_init ::
  "(u32 \<Rightarrow> u64 \<Rightarrow> DataObject) option \<Rightarrow> u64 \<Rightarrow> u64 \<Rightarrow> FalseSharingDetector" where
  "FalseSharingDetector_init symb w th =
     \<lparr>window_ns = w, threshold = th, fs_table = [], fs_symbolizer = symb\<rparr>"

definition MS_EVT_XSNP_HITM :: u32 where
  "MS_EVT_XSNP_HITM = 6"

text \<open>\<^verbatim>\<open>m[key]++\<close> on a map of counters: a missing key enters with 0 first.\<close>

fun bump_count :: "'k \<Rightarrow> ('k \<times> u64) list \<Rightarrow> ('k \<times> u64) list" where
  "bump_count k [] = [(k, 0 + 1)]"
| "bump_count k ((k', n) # rest) =
     (if k' = k then (k', n + 1) # rest else (k', n) # bump_count k rest)"

text \<open>\<^verbatim>\<open>v.resize(n, 0)\<close> on a vector of counters: cut to \<open>n\<close> elements, or filled with zeros.\<close>

definition resize :: "nat \<Rightarrow> u64 list \<Rightarrow> u64 list" where
  "resize n xs = take n xs @ replicate (n - length xs) 0"

text \<open>
  The statements of \<^verbatim>\<open>Observe\<close> on the line's statistics. \<^verbatim>\<open>sample.cpu + 1\<close> is computed
  in \<^verbatim>\<open>uint32_t\<close>: for \<^verbatim>\<open>cpu = UINT32_MAX\<close> it is 0, the vector is emptied, and the write
  \<^verbatim>\<open>cpu_hits[sample.cpu]++\<close> that follows is out of bounds. The source leaves that write
  undefined; the model returns \<open>None\<close> for it.
\<close>

definition observe_stats :: "Sample \<Rightarrow> Stats \<Rightarrow> Stats option" where
  "observe_stats smp stats =
     (let hits = (if length (cpu_hits stats) \<le> unat (cpu smp)
                  then resize (unat (cpu smp + 1)) (cpu_hits stats)
                  else cpu_hits stats)
      in if unat (cpu smp) < length hits
         then Some (stats\<lparr>total_hits := total_hits stats + 1,
                          last_tsc := tsc smp,
                          cpu_hits := hits[unat (cpu smp) := hits ! unat (cpu smp) + 1],
                          pid_hits := bump_count (pid smp) (pid_hits stats)\<rparr>)
         else None)"

text \<open>\<^verbatim>\<open>auto &stats = table_[line]\<close>: a line that is not in the table enters it empty.\<close>

fun observe_line ::
  "u64 \<Rightarrow> Sample \<Rightarrow> (u64 \<times> Stats) list \<Rightarrow> (u64 \<times> Stats) list option" where
  "observe_line line smp [] =
     (case observe_stats smp empty_stats of
        None \<Rightarrow> None
      | Some stats' \<Rightarrow> Some [(line, stats')])"
| "observe_line line smp ((line', stats) # rest) =
     (if line' = line
      then (case observe_stats smp stats of
              None \<Rightarrow> None
            | Some stats' \<Rightarrow> Some ((line', stats') # rest))
      else (case observe_line line smp rest of
              None \<Rightarrow> None
            | Some rest' \<Rightarrow> Some ((line', stats) # rest')))"

definition Observe :: "FalseSharingDetector \<Rightarrow> Sample \<Rightarrow> FalseSharingDetector option" where
  "Observe d smp =
     (if pmu_event smp \<noteq> MS_EVT_XSNP_HITM then Some d
      else let line = data_addr smp AND NOT (64 - 1)
           in case observe_line line smp (fs_table d) of
                None \<Rightarrow> None
              | Some table' \<Rightarrow> Some (d\<lparr>fs_table := table'\<rparr>))"

text \<open>A stream of samples observed one after the other.\<close>

fun observe_all :: "FalseSharingDetector \<Rightarrow> Sample list \<Rightarrow> FalseSharingDetector option" where
  "observe_all d [] = Some d"
| "observe_all d (smp # rest) =
     (case Observe d smp of None \<Rightarrow> None | Some d' \<Rightarrow> observe_all d' rest)"

text \<open>
  The first loop of \<^verbatim>\<open>Flush\<close> moves the expired lines out of the table. The test
  \<^verbatim>\<open>now_tsc - last_tsc > window_ns_\<close> is on \<^verbatim>\<open>uint64_t\<close>: the difference wraps around.
\<close>

definition expired :: "FalseSharingDetector \<Rightarrow> u64 \<Rightarrow> Stats \<Rightarrow> bool" where
  "expired d now_tsc stats = (now_tsc - last_tsc stats > window_ns d)"

text \<open>The loop over \<^verbatim>\<open>cpu_hits\<close>: the pair is (\<^verbatim>\<open>active\<close>, \<^verbatim>\<open>max_hits\<close>).\<close>

fun cpu_scan :: "u64 list \<Rightarrow> u64 \<times> u64 \<Rightarrow> u64 \<times> u64" where
  "cpu_scan [] am = am"
| "cpu_scan (hits # rest) (active, max_hits) =
     (if hits = 0 then cpu_scan rest (active, max_hits)
      else cpu_scan rest (active + 1, max max_hits hits))"

text \<open>
  \<^verbatim>\<open>dominance >= 0.9\<close>, for \<^verbatim>\<open>dominance = double(max_hits) / double(total_hits)\<close>. The
  quotient is taken in the reals. With \<^verbatim>\<open>total_hits = 0\<close> the double quotient is
  \<open>+\<infinity>\<close> for a positive \<^verbatim>\<open>max_hits\<close>, which passes the test, and NaN for \<open>0 / 0\<close>, which
  fails it.
\<close>

definition dominance_ge :: "u64 \<Rightarrow> u64 \<Rightarrow> bool" where
  "dominance_ge max_hits hits_total =
     (if hits_total = 0 then max_hits \<noteq> 0
      else real (unat max_hits) / real (unat hits_total) \<ge> 9 / 10)"

text \<open>The loop over \<^verbatim>\<open>pid_hits\<close>: the pair is the local \<^verbatim>\<open>dominant_pid\<close> (\<open>dom_pid\<close> here) with \<^verbatim>\<open>dominant_hits\<close>.\<close>

fun pid_scan :: "(u32 \<times> u64) list \<Rightarrow> u32 \<times> u64 \<Rightarrow> u32 \<times> u64" where
  "pid_scan [] best = best"
| "pid_scan ((p, n) # rest) (dom_pid, dominant_hits) =
     (if n > dominant_hits then pid_scan rest (p, n)
      else pid_scan rest (dom_pid, dominant_hits))"

text \<open>The body of the second loop for one expired line: a finding, or nothing.\<close>

definition report :: "FalseSharingDetector \<Rightarrow> u64 \<times> Stats \<Rightarrow> FalseSharingFinding option" where
  "report d kv =
     (let stats = snd kv
      in if total_hits stats < threshold d then None
         else let (active, max_hits) = cpu_scan (cpu_hits stats) (0, 0)
              in if active < 2 then None
                 else if dominance_ge max_hits (total_hits stats) then None
                 else let dominant = fst (pid_scan (pid_hits stats) (0, 0))
                      in Some \<lparr>line_addr = fst kv,
                               finding_total_hits = total_hits stats,
                               finding_cpu_hits = cpu_hits stats,
                               dominant_pid = dominant,
                               object = (case fs_symbolizer d of
                                           Some resolve \<Rightarrow>
                                             if dominant \<noteq> 0 then resolve dominant (fst kv)
                                             else empty_object
                                         | None \<Rightarrow> empty_object)\<rparr>)"

text \<open>
  \<^verbatim>\<open>Flush\<close> returns the detector with the expired lines erased, and the findings handed to
  the callback, in order.
\<close>

definition FalseSharingDetector_Flush ::
  "FalseSharingDetector \<Rightarrow> u64 \<Rightarrow> FalseSharingDetector \<times> FalseSharingFinding list" where
  "FalseSharingDetector_Flush d now_tsc =
     (let gone = filter (\<lambda>kv. expired d now_tsc (snd kv)) (fs_table d);
          kept = filter (\<lambda>kv. \<not> expired d now_tsc (snd kv)) (fs_table d)
      in (d\<lparr>fs_table := kept\<rparr>, List.map_filter (report d) gone))"

text \<open>A HITM sample of process 7 on the cache line at 4096, from CPU \<open>c\<close> at time \<open>t\<close>.\<close>

definition hitm_sample :: "u32 \<Rightarrow> u64 \<Rightarrow> Sample" where
  "hitm_sample c t =
     zero_sample\<lparr>pmu_event := MS_EVT_XSNP_HITM, data_addr := 4096, pid := 7, cpu := c, tsc := t\<rparr>"

text \<open>
  A detector with a window of 50 ms and threshold 2 whose table holds one line, hit once
  from CPU 0 and once from CPU 1 by process 7, last at time 1000000000.
\<close>

definition two_hits :: FalseSharingDetector where
  "two_hits =
     \<lparr>window_ns = 50000000, threshold = 2,
      fs_table = [(4096, \<lparr>total_hits = 2, last_tsc = 1000000000, cpu_hits = [1, 1],
                           pid_hits = [(7, 2)]\<rparr>)],
      fs_symbolizer = None\<rparr>"

section \<open>Doubles (IEEE 754 binary64)\<close>

text \<open>
  The time calibrator computes with \<^verbatim>\<open>double\<close>s. A finite double is modelled by the real
  number it denotes, and \<open>fl x\<close> is the double nearest to the real number \<open>x\<close>, the one with
  the even significand when two are equally near: the rounding of IEEE 754 binary64 in its
  default mode, with 53 significant bits and the least spacing \<open>2^-1074\<close> of the subnormal
  range. An operation of the source on doubles is the exact operation followed by \<open>fl\<close>,
  one rounding for each operation: binary64 arithmetic as x86-64 code performs it, without
  extended precision and without contraction of a product and a sum into one fused
  operation. The largest double is not modelled, so \<open>fl\<close> never overflows; \<^verbatim>\<open>Normalize\<close>
  stays far below it, its timestamps being below \<open>2^64\<close> and its slope an average of 1 and
  of estimates below 10.

  \<open>expo x\<close> is the binary exponent of \<open>x \<noteq> 0\<close>, the \<open>e\<close> with \<open>2^e \<le> \<bar>x\<bar> < 2^(e + 1)\<close>;
  \<open>bitlen n\<close> is the number of binary digits of \<open>n\<close>.
\<close>

definition expo :: "real \<Rightarrow> int" where
  "expo x = (if 1 \<le> \<bar>x\<bar> then bitlen \<lfloor>\<bar>x\<bar>\<rfloor> - 1 else - bitlen (\<lceil>1 / \<bar>x\<bar>\<rceil> - 1))"

text \<open>The integer nearest to \<open>y\<close>, the even one of two equally near.\<close>

definition round_even :: "real \<Rightarrow> int" where
  "round_even y =
     (let n = \<lfloor>y\<rfloor>; r = y - of_int n
      in if r < 1 / 2 then n else if 1 / 2 < r then n + 1 else if even n then n else n + 1)"

text \<open>Rounding to a multiple of the spacing \<open>2^u\<close> of the doubles around \<open>x\<close>.\<close>

definition fl :: "real \<Rightarrow> real" where
  "fl x =
     (if x = 0 then 0
      else let u = max (expo x - 52) (- 1074)
           in of_int (round_even (x / 2 powi u)) * 2 powi u)"

text \<open>\<^verbatim>\<open>static_cast<double>\<close> of a 64-bit unsigned integer rounds it.\<close>

definition double_of_u64 :: "u64 \<Rightarrow> real" where
  "double_of_u64 w = fl (real (unat w))"

text \<open>
  \<^verbatim>\<open>static_cast<uint64_t>\<close> of a double cuts off its fraction. Where the result is not a
  64-bit unsigned integer the source leaves the cast undefined; the model returns \<open>None\<close>.
\<close>

definition u64_of_double :: "real \<Rightarrow> u64 option" where
  "u64_of_double x =
     (if - 1 < x \<and> x < 2 ^ 64 then Some (word_of_int (if x < 0 then 0 else \<lfloor>x\<rfloor>)) else None)"

section \<open>Time calibrator (config.h, tsc_calibrator.h, tsc_calibrator.cpp)\<close>

text \<open>
  The configuration and the model of a CPU hold \<^verbatim>\<open>double\<close>s: the two smoothing factors, and
  \<^verbatim>\<open>slope\<close> and \<^verbatim>\<open>offset\<close>. The configured factors are taken to be numbers (of the values
  that \<^verbatim>\<open>std::stod\<close> reads, an infinite one is clamped like a large one; a NaN is not
  modelled).
\<close>

record TscCalibrationConfig =
  enabled :: bool
  slope_alpha :: real
  offset_alpha :: real

record CpuModel =
  slope :: real
  offset :: real
  last_raw :: u64
  last_ref :: u64
  initialized :: bool
  passthrough_steady_ns :: bool

definition new_model :: CpuModel where
  "new_model = \<lparr>slope = 1, offset = 0, last_raw = 0, last_ref = 0,
                 initialized = False, passthrough_steady_ns = False\<rparr>"

record TscCalibrator =
  cal_cfg :: TscCalibrationConfig
  models :: "CpuModel list"

definition TscCalibrator_init :: "TscCalibrationConfig \<Rightarrow> TscCalibrator" where
  "TscCalibrator_init cfg = \<lparr>cal_cfg = cfg, models = []\<rparr>"

text \<open>
  \<^verbatim>\<open>constexpr double kMinAlpha = 0.001\<close> is the double nearest to 0.001. The other literals
  of the source, 0.5, 0.75, 1.5, 10.0, 1.0 and 0.0, are doubles.
\<close>

definition kMinAlpha :: real where
  "kMinAlpha = fl (1 / 1000)"

definition kMaxAlpha :: real where
  "kMaxAlpha = 1 / 2"

text \<open>\<^verbatim>\<open>std::clamp(v, lo, hi)\<close>.\<close>

definition clamp :: "real \<Rightarrow> real \<Rightarrow> real \<Rightarrow> real" where
  "clamp v lo hi = (if v < lo then lo else if hi < v then hi else v)"

definition EnsureModel :: "u32 \<Rightarrow> CpuModel list \<Rightarrow> CpuModel list" where
  "EnsureModel c ms =
     (if unat c \<ge> length ms then ms @ replicate (unat c + 1 - length ms) new_model else ms)"

text \<open>
  The part of \<^verbatim>\<open>Normalize\<close> that works on the CPU's model, after \<^verbatim>\<open>EnsureModel\<close>: the
  new model and the value returned, \<open>None\<close> where the final cast is undefined. \<open>ref_ns\<close> is
  the reading of \<^verbatim>\<open>NowNs()\<close>. Every conversion, quotient, product, sum and difference of
  doubles is rounded.
\<close>

definition normalize_model ::
  "TscCalibrationConfig \<Rightarrow> CpuModel \<Rightarrow> u64 \<Rightarrow> u64 \<Rightarrow> CpuModel \<times> u64 option" where
  "normalize_model cfg model raw_tsc ref_ns =
     (let s_alpha = clamp (slope_alpha cfg) kMinAlpha kMaxAlpha;
          o_alpha = clamp (offset_alpha cfg) kMinAlpha kMaxAlpha
      in if \<not> initialized model then
           (let m1 = model\<lparr>initialized := True\<rparr>
            in if ref_ns > 0 \<and> raw_tsc > 0
                  \<and> fl (double_of_u64 raw_tsc / double_of_u64 ref_ns) > 75 / 100
                  \<and> fl (double_of_u64 raw_tsc / double_of_u64 ref_ns) < 15 / 10
               then (m1\<lparr>passthrough_steady_ns := True, last_raw := raw_tsc, last_ref := ref_ns\<rparr>,
                     Some raw_tsc)
               else (m1\<lparr>slope := 1,
                        offset := fl (double_of_u64 ref_ns - double_of_u64 raw_tsc),
                        last_raw := raw_tsc, last_ref := ref_ns\<rparr>,
                     Some ref_ns))
         else if passthrough_steady_ns model then (model, Some raw_tsc)
         else
           (let raw_delta = (if raw_tsc \<ge> last_raw model then raw_tsc - last_raw model else 0);
                ref_delta = ref_ns - last_ref model;
                slope1 =
                  (if raw_delta > 0 \<and> ref_delta > 0
                   then (let slope_est = fl (double_of_u64 ref_delta / double_of_u64 raw_delta)
                         in if slope_est > 0 \<and> slope_est < 10
                            then fl (fl (s_alpha * slope_est) + fl (fl (1 - s_alpha) * slope model))
                            else slope model)
                   else slope model);
                offset_est = fl (double_of_u64 ref_ns - fl (slope1 * double_of_u64 raw_tsc));
                offset1 = fl (fl (o_alpha * offset_est) + fl (fl (1 - o_alpha) * offset model));
                normalized = fl (fl (slope1 * double_of_u64 raw_tsc) + offset1);
                normalized1 = (if normalized < 0 then 0 else normalized)
            in (model\<lparr>slope := slope1, offset := offset1, last_raw := raw_tsc, last_ref := ref_ns\<rparr>,
                u64_of_double normalized1)))"

definition Normalize :: "TscCalibrator \<Rightarrow> u32 \<Rightarrow> u64 \<Rightarrow> u64 \<Rightarrow> TscCalibrator \<times> u64 option" where
  "Normalize cal c raw_tsc ref_ns =
     (if \<not> enabled (cal_cfg cal) then (cal, Some raw_tsc)
      else let ms = EnsureModel c (models cal);
               (model, result) = normalize_model (cal_cfg cal) (ms ! unat c) raw_tsc ref_ns
           in (cal\<lparr>models := ms[unat c := model]\<rparr>, result))"


definition default_cfg :: TscCalibrationConfig where
  "default_cfg = \<lparr>enabled = True, slope_alpha = fl (5 / 100), offset_alpha = fl (5 / 100)\<rparr>"


text \<open>
  What holds of every model the calibrator can reach: passthrough is only ever set on an
  initialised model.
\<close>

definition valid_model :: "CpuModel \<Rightarrow> bool" where
  "valid_model m = (passthrough_steady_ns m \<longrightarrow> initialized m)"

definition valid_calibrator :: "TscCalibrator \<Rightarrow> bool" where
  "valid_calibrator cal = (\<forall>m \<in> set (models cal). valid_model m)"

chapter \<open>The properties\<close>

section \<open>Token-bucket updates (bucket_update.h, bucket_update.cpp)\<close>

subsection \<open>Lemmas on one update\<close>

lemma ApplyBucketUpdate_no_diag_keeps_order:
  assumes "\<not> sets_diagnostic req"
    and "sentinel_budget state \<le> diagnostic_budget state"
  shows "sentinel_budget (snd (ApplyBucketUpdate req mode state))
           \<le> diagnostic_budget (snd (ApplyBucketUpdate req mode state))"
  using assms by (auto simp: ApplyBucketUpdate_def sets_diagnostic_def Let_def)

lemma ApplyBucketUpdate_lifts:
  assumes "sets_sentinel req" and "\<not> sets_diagnostic req"
  shows "sentinel_budget (snd (ApplyBucketUpdate req mode state))
           \<le> diagnostic_budget (snd (ApplyBucketUpdate req mode state))"
  using assms
  by (auto simp: ApplyBucketUpdate_def sets_diagnostic_def sets_sentinel_def Let_def)

lemma apply_updates_append:
  "apply_updates (xs @ ys) state = apply_updates ys (apply_updates xs state)"
  by (induction xs arbitrary: state) auto

lemma apply_updates_no_diag_keeps_order:
  assumes "\<forall>p \<in> set post. \<not> sets_diagnostic (fst p)"
    and "sentinel_budget state \<le> diagnostic_budget state"
  shows "sentinel_budget (apply_updates post state) \<le> diagnostic_budget (apply_updates post state)"
  using assms
proof (induction post arbitrary: state)
  case Nil
  then show ?case by simp
next
  case (Cons p post)
  obtain req mode where p: "p = (req, mode)" by (cases p)
  from Cons.prems have nd: "\<not> sets_diagnostic req" by (simp add: p)
  have "sentinel_budget (snd (ApplyBucketUpdate req mode state))
          \<le> diagnostic_budget (snd (ApplyBucketUpdate req mode state))"
    by (rule ApplyBucketUpdate_no_diag_keeps_order [OF nd Cons.prems(2)])
  with Cons show ?case by (simp add: p)
qed

subsection \<open>Claim C7\<close>

text \<open>
  C7, as stated, fails in both halves. From the state of the repository's test
  (sentinel 1000, diagnostic 4000, hard drop 8000): the request \<open>{sentinel = 1500}\<close>
  followed by \<open>{diagnostic = 100}\<close> leaves diagnostic 100 below sentinel 1500, although the
  last request that changed the sentinel budget carried no diagnostic update; and the
  request \<open>{hard_drop = 8000}\<close> changes no value of the state and still returns
  \<^verbatim>\<open>reprogram_required = true\<close>.
\<close>

theorem C7_counterexample:
  "diagnostic_budget
     (apply_updates
        [(no_request\<lparr>has_sentinel := True, req_sentinel_budget := 1500\<rparr>, Sentinel),
         (no_request\<lparr>has_diagnostic := True, req_diagnostic_budget := 100\<rparr>, Sentinel)]
        \<lparr>sentinel_budget = 1000, diagnostic_budget = 4000, hard_drop_ns = 8000\<rparr>)
     < sentinel_budget
     (apply_updates
        [(no_request\<lparr>has_sentinel := True, req_sentinel_budget := 1500\<rparr>, Sentinel),
         (no_request\<lparr>has_diagnostic := True, req_diagnostic_budget := 100\<rparr>, Sentinel)]
        \<lparr>sentinel_budget = 1000, diagnostic_budget = 4000, hard_drop_ns = 8000\<rparr>)
   \<and> reprogram_required
       (fst (ApplyBucketUpdate (no_request\<lparr>has_hard_drop := True, req_hard_drop_ns := 8000\<rparr>)
          Sentinel \<lparr>sentinel_budget = 1000, diagnostic_budget = 4000, hard_drop_ns = 8000\<rparr>))
   \<and> snd (ApplyBucketUpdate (no_request\<lparr>has_hard_drop := True, req_hard_drop_ns := 8000\<rparr>)
          Sentinel \<lparr>sentinel_budget = 1000, diagnostic_budget = 4000, hard_drop_ns = 8000\<rparr>)
       = \<lparr>sentinel_budget = 1000, diagnostic_budget = 4000, hard_drop_ns = 8000\<rparr>"
  by (simp add: ApplyBucketUpdate_def no_request_def Let_def)

text \<open>
  C7, amended. (1) After a sequence of requests, \<open>diagnostic_budget \<ge> sentinel_budget\<close>
  whenever some request of the sequence set the sentinel budget without a diagnostic
  update and no later request carried a diagnostic update. (2) \<^verbatim>\<open>reprogram_required\<close> is
  true iff the request set the hard-drop value, or set the budget of the active mode's arm
  (a positive value was supplied, equal to the old one or not), or, in Diagnostic mode,
  the diagnostic budget was lifted to the new sentinel budget. (3) In particular it is true
  whenever the hard-drop value or the active arm's budget changed.
\<close>

theorem C7_bucket_update:
  "(sets_sentinel req \<and> \<not> sets_diagnostic req \<and> (\<forall>p \<in> set post. \<not> sets_diagnostic (fst p))
      \<longrightarrow> sentinel_budget (apply_updates (pre @ (req, mode) # post) state)
            \<le> diagnostic_budget (apply_updates (pre @ (req, mode) # post) state))
   \<and> (reprogram_required (fst (ApplyBucketUpdate r m st)) \<longleftrightarrow>
        sets_hard_drop r
        \<or> (m = Sentinel \<and> sets_sentinel r)
        \<or> (m = Diagnostic \<and>
             (sets_diagnostic r \<or> (sets_sentinel r \<and> diagnostic_budget st < req_sentinel_budget r))))
   \<and> (hard_drop_ns (snd (ApplyBucketUpdate r m st)) \<noteq> hard_drop_ns st
        \<or> budget_of m (snd (ApplyBucketUpdate r m st)) \<noteq> budget_of m st
      \<longrightarrow> reprogram_required (fst (ApplyBucketUpdate r m st)))"
proof (intro conjI impI)
  assume h: "sets_sentinel req \<and> \<not> sets_diagnostic req
               \<and> (\<forall>p \<in> set post. \<not> sets_diagnostic (fst p))"
  let ?s = "snd (ApplyBucketUpdate req mode (apply_updates pre state))"
  have "sentinel_budget ?s \<le> diagnostic_budget ?s"
    using h by (simp add: ApplyBucketUpdate_lifts)
  then have "sentinel_budget (apply_updates post ?s) \<le> diagnostic_budget (apply_updates post ?s)"
    using h by (simp add: apply_updates_no_diag_keeps_order)
  then show "sentinel_budget (apply_updates (pre @ (req, mode) # post) state)
               \<le> diagnostic_budget (apply_updates (pre @ (req, mode) # post) state)"
    by (simp add: apply_updates_append)
next
  show "reprogram_required (fst (ApplyBucketUpdate r m st)) \<longleftrightarrow>
        sets_hard_drop r
        \<or> (m = Sentinel \<and> sets_sentinel r)
        \<or> (m = Diagnostic \<and>
             (sets_diagnostic r \<or> (sets_sentinel r \<and> diagnostic_budget st < req_sentinel_budget r)))"
    by (cases m)
      (auto simp: ApplyBucketUpdate_def sets_hard_drop_def sets_sentinel_def sets_diagnostic_def
        Let_def)
next
  assume "hard_drop_ns (snd (ApplyBucketUpdate r m st)) \<noteq> hard_drop_ns st
        \<or> budget_of m (snd (ApplyBucketUpdate r m st)) \<noteq> budget_of m st"
  then show "reprogram_required (fst (ApplyBucketUpdate r m st))"
    by (cases m) (auto simp: ApplyBucketUpdate_def budget_of_def Let_def split: if_splits)
qed

theorem C7_bucket_update_witness:
  "sets_sentinel (no_request\<lparr>has_sentinel := True, req_sentinel_budget := 5000\<rparr>)
   \<and> \<not> sets_diagnostic (no_request\<lparr>has_sentinel := True, req_sentinel_budget := 5000\<rparr>)
   \<and> \<not> sets_diagnostic (no_request\<lparr>has_hard_drop := True, req_hard_drop_ns := 2000\<rparr>)
   \<and> apply_updates
        [(no_request\<lparr>has_diagnostic := True, req_diagnostic_budget := 4500\<rparr>, Sentinel),
         (no_request\<lparr>has_sentinel := True, req_sentinel_budget := 5000\<rparr>, Diagnostic),
         (no_request\<lparr>has_hard_drop := True, req_hard_drop_ns := 2000\<rparr>, Sentinel)]
        \<lparr>sentinel_budget = 1000, diagnostic_budget = 4000, hard_drop_ns = 8000\<rparr>
       = \<lparr>sentinel_budget = 5000, diagnostic_budget = 5000, hard_drop_ns = 2000\<rparr>
   \<and> sentinel_budget (apply_updates
        [(no_request\<lparr>has_diagnostic := True, req_diagnostic_budget := 4500\<rparr>, Sentinel),
         (no_request\<lparr>has_sentinel := True, req_sentinel_budget := 5000\<rparr>, Diagnostic),
         (no_request\<lparr>has_hard_drop := True, req_hard_drop_ns := 2000\<rparr>, Sentinel)]
        \<lparr>sentinel_budget = 1000, diagnostic_budget = 4000, hard_drop_ns = 8000\<rparr>)
      \<le> diagnostic_budget (apply_updates
        [(no_request\<lparr>has_diagnostic := True, req_diagnostic_budget := 4500\<rparr>, Sentinel),
         (no_request\<lparr>has_sentinel := True, req_sentinel_budget := 5000\<rparr>, Diagnostic),
         (no_request\<lparr>has_hard_drop := True, req_hard_drop_ns := 2000\<rparr>, Sentinel)]
        \<lparr>sentinel_budget = 1000, diagnostic_budget = 4000, hard_drop_ns = 8000\<rparr>)
   \<and> reprogram_required
        (fst (ApplyBucketUpdate (no_request\<lparr>has_sentinel := True, req_sentinel_budget := 5000\<rparr>)
           Diagnostic \<lparr>sentinel_budget = 1000, diagnostic_budget = 4500, hard_drop_ns = 8000\<rparr>))"
proof -
  let ?r = "no_request\<lparr>has_sentinel := True, req_sentinel_budget := 5000\<rparr>"
  let ?d = "no_request\<lparr>has_hard_drop := True, req_hard_drop_ns := 2000\<rparr>"
  let ?p = "no_request\<lparr>has_diagnostic := True, req_diagnostic_budget := 4500\<rparr>"
  let ?s = "\<lparr>sentinel_budget = 1000, diagnostic_budget = 4000, hard_drop_ns = 8000\<rparr>"
  let ?t = "\<lparr>sentinel_budget = 1000, diagnostic_budget = 4500, hard_drop_ns = 8000\<rparr>"
  have h: "sets_sentinel ?r \<and> \<not> sets_diagnostic ?r
           \<and> (\<forall>p \<in> set [(?d, Sentinel)]. \<not> sets_diagnostic (fst p))"
    by (simp add: sets_sentinel_def sets_diagnostic_def no_request_def)
  have v: "hard_drop_ns (snd (ApplyBucketUpdate ?r Diagnostic ?t)) \<noteq> hard_drop_ns ?t
        \<or> budget_of Diagnostic (snd (ApplyBucketUpdate ?r Diagnostic ?t)) \<noteq> budget_of Diagnostic ?t"
    by (simp add: ApplyBucketUpdate_def budget_of_def no_request_def Let_def)
  note C7 = C7_bucket_update [of ?r "[(?d, Sentinel)]" "[(?p, Sentinel)]" Diagnostic ?s ?r Diagnostic ?t]
  have a: "sentinel_budget (apply_updates ([(?p, Sentinel)] @ (?r, Diagnostic) # [(?d, Sentinel)]) ?s)
            \<le> diagnostic_budget (apply_updates ([(?p, Sentinel)] @ (?r, Diagnostic) # [(?d, Sentinel)]) ?s)"
    using C7 h by blast
  have b: "reprogram_required (fst (ApplyBucketUpdate ?r Diagnostic ?t))"
    using C7 v by blast
  have c: "apply_updates
        [(?p, Sentinel), (?r, Diagnostic), (?d, Sentinel)] ?s
       = \<lparr>sentinel_budget = 5000, diagnostic_budget = 5000, hard_drop_ns = 2000\<rparr>"
    by (simp add: ApplyBucketUpdate_def no_request_def Let_def)
  show ?thesis using a b c h by simp
qed

section \<open>Mode controller (config.h, anomaly_signal.h, mode_controller.h, mode_controller.cpp)\<close>

lemma hold_ns_unat:
  assumes "0 \<le> q" and "q * 1000000 < 2 ^ 64"
  shows "unat ((word_of_int q :: u64) * 1000000) = nat (q * 1000000)"
proof -
  have "(word_of_int q :: u64) * 1000000 = word_of_int (q * 1000000)"
    by simp
  then have "unat ((word_of_int q :: u64) * 1000000) = nat ((q * 1000000) mod 2 ^ 64)"
    by (simp only: unat_eq_nat_uint uint_word_of_int) simp
  also have "(q * 1000000) mod 2 ^ 64 = q * 1000000"
    using assms by simp
  finally show ?thesis .
qed

lemma AnomalyHoldActive_window:
  assumes "mc_last_anomaly_ns mc \<noteq> 0"
    and "0 \<le> anomaly_quiet_period (mc_thresholds mc)"
    and "anomaly_quiet_period (mc_thresholds mc) * 1000000 < 2 ^ 64"
    and "unat (mc_last_anomaly_ns mc) \<le> unat now"
    and "int (unat now) < int (unat (mc_last_anomaly_ns mc))
           + anomaly_quiet_period (mc_thresholds mc) * 1000000"
  shows "AnomalyHoldActive mc now"
proof -
  let ?q = "anomaly_quiet_period (mc_thresholds mc)"
  let ?hold = "(word_of_int ?q :: u64) * 1000000"
  let ?last = "mc_last_anomaly_ns mc"
  have hold: "unat ?hold = nat (?q * 1000000)"
    using assms(2,3) by (rule hold_ns_unat)
  have le: "?last \<le> now"
    using assms(4) by (simp add: word_le_nat_alt)
  then have diff: "unat (now - ?last) = unat now - unat ?last"
    by (simp add: unat_sub)
  have "unat (now - ?last) < unat ?hold"
    using assms(4,5) unfolding diff hold by arith
  then have lt: "now - ?last < ?hold"
    by (simp add: word_less_nat_alt)
  then have "?hold \<noteq> 0"
    by auto
  with le lt assms(1) show ?thesis
    by (simp add: AnomalyHoldActive_def Let_def)
qed

subsection \<open>Claim C3\<close>

text \<open>
  C3, as stated, fails for a ThroughputDrop signal whose ratio is not positive: with the
  default thresholds (trigger 0.85) a ThroughputDrop signal of ratio 0 is below the trigger,
  and \<^verbatim>\<open>NotifyAnomaly\<close> leaves the controller in Sentinel, because the source also
  requires \<^verbatim>\<open>signal.ratio > 0.0\<close>.
\<close>

theorem C3_counterexample:
  "ratio \<lparr>type = ThroughputDrop, ratio = 0, value = 0, timestamp_ns = 1\<rparr>
     < throughput_ratio_trigger (mc_thresholds (ModeController_init default_thresholds))
   \<and> fst (NotifyAnomaly (ModeController_init default_thresholds)
          \<lparr>type = ThroughputDrop, ratio = 0, value = 0, timestamp_ns = 1\<rparr> 1) = Sentinel"
  by (simp add: NotifyAnomaly_def ModeController_init_def default_thresholds_def Let_def)

text \<open>
  C3, amended. On \<^verbatim>\<open>Update(load_ratio)\<close>, Sentinel changes to Diagnostic iff
  \<open>load_ratio > sentinel_to_diag\<close>, and Diagnostic changes to Sentinel iff the anomaly hold
  is not active and \<open>load_ratio < diag_to_sentinel\<close>. On \<^verbatim>\<open>NotifyAnomaly\<close>, a ThroughputDrop
  signal with \<open>0 < ratio < throughput_ratio_trigger\<close>, or a LatencySpike signal with
  \<open>ratio > latency_ratio_trigger\<close>, sets the mode to Diagnostic, and every other signal
  leaves the mode as it is. Both functions return the mode they leave in the controller.
\<close>

theorem C3_mode_transitions:
  "(mc_mode mc = Sentinel \<longrightarrow>
      (fst (Update mc load_ratio now) = Diagnostic
         \<longleftrightarrow> load_ratio > sentinel_to_diag (mc_thresholds mc)))
   \<and> (mc_mode mc = Diagnostic \<longrightarrow>
      (fst (Update mc load_ratio now) = Sentinel
         \<longleftrightarrow> \<not> AnomalyHoldActive mc now \<and> load_ratio < diag_to_sentinel (mc_thresholds mc)))
   \<and> ((type signal = ThroughputDrop \<and> 0 < ratio signal
          \<and> ratio signal < throughput_ratio_trigger (mc_thresholds mc))
        \<or> (type signal = LatencySpike \<and> ratio signal > latency_ratio_trigger (mc_thresholds mc))
      \<longrightarrow> fst (NotifyAnomaly mc signal now) = Diagnostic)
   \<and> (\<not> ((type signal = ThroughputDrop \<and> 0 < ratio signal
          \<and> ratio signal < throughput_ratio_trigger (mc_thresholds mc))
        \<or> (type signal = LatencySpike \<and> ratio signal > latency_ratio_trigger (mc_thresholds mc)))
      \<longrightarrow> fst (NotifyAnomaly mc signal now) = mc_mode mc)
   \<and> mc_mode (snd (Update mc load_ratio now)) = fst (Update mc load_ratio now)
   \<and> mc_mode (snd (NotifyAnomaly mc signal now)) = fst (NotifyAnomaly mc signal now)"
proof (intro conjI impI)
  assume "mc_mode mc = Sentinel"
  then show "fst (Update mc load_ratio now) = Diagnostic
         \<longleftrightarrow> load_ratio > sentinel_to_diag (mc_thresholds mc)"
    by (simp add: Update_def Let_def)
next
  assume "mc_mode mc = Diagnostic"
  then show "fst (Update mc load_ratio now) = Sentinel
         \<longleftrightarrow> \<not> AnomalyHoldActive mc now \<and> load_ratio < diag_to_sentinel (mc_thresholds mc)"
    by (simp add: Update_def Let_def)
next
  assume "(type signal = ThroughputDrop \<and> 0 < ratio signal
          \<and> ratio signal < throughput_ratio_trigger (mc_thresholds mc))
        \<or> (type signal = LatencySpike \<and> ratio signal > latency_ratio_trigger (mc_thresholds mc))"
  then show "fst (NotifyAnomaly mc signal now) = Diagnostic"
    by (auto simp: NotifyAnomaly_def Let_def)
next
  assume "\<not> ((type signal = ThroughputDrop \<and> 0 < ratio signal
          \<and> ratio signal < throughput_ratio_trigger (mc_thresholds mc))
        \<or> (type signal = LatencySpike \<and> ratio signal > latency_ratio_trigger (mc_thresholds mc)))"
  then show "fst (NotifyAnomaly mc signal now) = mc_mode mc"
    by (cases "type signal") (auto simp: NotifyAnomaly_def Let_def)
next
  show "mc_mode (snd (Update mc load_ratio now)) = fst (Update mc load_ratio now)"
    by (simp add: Update_def Let_def)
next
  show "mc_mode (snd (NotifyAnomaly mc signal now)) = fst (NotifyAnomaly mc signal now)"
    by (simp add: NotifyAnomaly_def Let_def)
qed

text \<open>
  The scenario of the repository's test (thresholds 1.1, 1.01, 0.8, 1.2): \<open>update(1.2)\<close>
  enters Diagnostic, \<open>update(1.0)\<close> returns to Sentinel, a ThroughputDrop of ratio 0.6
  enters Diagnostic.
\<close>

theorem C3_mode_transitions_witness:
  "fst (Update (ModeController_init (default_thresholds\<lparr>diag_to_sentinel := 101 / 100\<rparr>))
          (12 / 10) 7) = Diagnostic
   \<and> fst (Update (ModeController_init (default_thresholds\<lparr>diag_to_sentinel := 101 / 100\<rparr>)
               \<lparr>mc_mode := Diagnostic\<rparr>) 1 7) = Sentinel
   \<and> fst (NotifyAnomaly (ModeController_init (default_thresholds\<lparr>throughput_ratio_trigger := 8 / 10\<rparr>))
          \<lparr>type = ThroughputDrop, ratio = 6 / 10, value = 100, timestamp_ns = 0\<rparr> 7) = Diagnostic
   \<and> fst (NotifyAnomaly (ModeController_init (default_thresholds\<lparr>throughput_ratio_trigger := 8 / 10\<rparr>))
          \<lparr>type = ThroughputDrop, ratio = 9 / 10, value = 100, timestamp_ns = 0\<rparr> 7) = Sentinel"
proof -
  let ?th = "default_thresholds\<lparr>diag_to_sentinel := 101 / 100\<rparr>"
  let ?tt = "default_thresholds\<lparr>throughput_ratio_trigger := 8 / 10\<rparr>"
  let ?s1 = "\<lparr>type = ThroughputDrop, ratio = 6 / 10, value = 100, timestamp_ns = 0\<rparr>"
  let ?s2 = "\<lparr>type = ThroughputDrop, ratio = 9 / 10, value = 100, timestamp_ns = 0\<rparr>"
  have a: "fst (Update (ModeController_init ?th) (12 / 10) 7) = Diagnostic"
    using C3_mode_transitions [of "ModeController_init ?th" "12 / 10" 7 ?s1]
    by (simp add: ModeController_init_def default_thresholds_def)
  have b: "fst (Update (ModeController_init ?th\<lparr>mc_mode := Diagnostic\<rparr>) 1 7) = Sentinel"
    using C3_mode_transitions [of "ModeController_init ?th\<lparr>mc_mode := Diagnostic\<rparr>" 1 7 ?s1]
    by (simp add: ModeController_init_def default_thresholds_def AnomalyHoldActive_def)
  have c: "fst (NotifyAnomaly (ModeController_init ?tt) ?s1 7) = Diagnostic"
    using C3_mode_transitions [of "ModeController_init ?tt" 1 7 ?s1]
    by (simp add: ModeController_init_def default_thresholds_def)
  have d: "fst (NotifyAnomaly (ModeController_init ?tt) ?s2 7) = Sentinel"
    using C3_mode_transitions [of "ModeController_init ?tt" 1 7 ?s2]
    by (simp add: ModeController_init_def default_thresholds_def)
  show ?thesis using a b c d by simp
qed

subsection \<open>Claim C10\<close>

text \<open>
  C10, as stated, fails when the signal's timestamp is not the time of the call. With the
  default quiet period of 5 s, a controller in Diagnostic is notified at time 7 s of an
  anomaly recorded at time 1 s; an \<^verbatim>\<open>Update\<close> with load ratio 0 one nanosecond after the
  call returns to Sentinel, since the hold is counted from the stored timestamp and has
  already run out.
\<close>

theorem C10_counterexample:
  "fst (Update
     (snd (NotifyAnomaly (ModeController_init default_thresholds\<lparr>mc_mode := Diagnostic\<rparr>)
        \<lparr>type = LatencySpike, ratio = 1, value = 0, timestamp_ns = 1000000000\<rparr> 7000000000))
     0 7000000001) = Sentinel"
  by (simp add: Update_def NotifyAnomaly_def AnomalyHoldActive_def ModeController_init_def
      default_thresholds_def Let_def)

text \<open>
  C10, amended. Every call to \<^verbatim>\<open>NotifyAnomaly\<close> stores, as the last-anomaly time, the
  signal's timestamp when it is not 0 and the time of the call otherwise, whatever the
  signal's type and ratio. While the controller is in Diagnostic, for a quiet period of
  \<open>q \<ge> 0\<close> milliseconds (with \<open>q * 10^6 < 2^64\<close>) and a stored time \<open>ts \<noteq> 0\<close>, an \<^verbatim>\<open>Update\<close>
  at any time \<open>t\<close> with \<open>ts \<le> t < ts + q * 10^6\<close> keeps Diagnostic, whatever the load ratio.
\<close>

theorem C10_anomaly_hold:
  "mc_last_anomaly_ns (snd (NotifyAnomaly mc signal t0))
     = (if timestamp_ns signal = 0 then t0 else timestamp_ns signal)
   \<and> (mc_mode (snd (NotifyAnomaly mc signal t0)) = Diagnostic
       \<and> (if timestamp_ns signal = 0 then t0 else timestamp_ns signal) \<noteq> 0
       \<and> 0 \<le> anomaly_quiet_period (mc_thresholds mc)
       \<and> anomaly_quiet_period (mc_thresholds mc) * 1000000 < 2 ^ 64
       \<and> unat (if timestamp_ns signal = 0 then t0 else timestamp_ns signal) \<le> unat t
       \<and> int (unat t) < int (unat (if timestamp_ns signal = 0 then t0 else timestamp_ns signal))
                          + anomaly_quiet_period (mc_thresholds mc) * 1000000
      \<longrightarrow> fst (Update (snd (NotifyAnomaly mc signal t0)) load_ratio t) = Diagnostic)"
proof (intro conjI impI)
  let ?mc = "snd (NotifyAnomaly mc signal t0)"
  let ?ts = "if timestamp_ns signal = 0 then t0 else timestamp_ns signal"
  show last: "mc_last_anomaly_ns ?mc = ?ts"
    by (cases "type signal") (simp_all add: NotifyAnomaly_def Let_def)
  have th: "mc_thresholds ?mc = mc_thresholds mc"
    by (cases "type signal") (simp_all add: NotifyAnomaly_def Let_def)
  assume h: "mc_mode ?mc = Diagnostic
       \<and> ?ts \<noteq> 0
       \<and> 0 \<le> anomaly_quiet_period (mc_thresholds mc)
       \<and> anomaly_quiet_period (mc_thresholds mc) * 1000000 < 2 ^ 64
       \<and> unat ?ts \<le> unat t
       \<and> int (unat t) < int (unat ?ts) + anomaly_quiet_period (mc_thresholds mc) * 1000000"
  have "AnomalyHoldActive ?mc t"
    using h AnomalyHoldActive_window [of ?mc t] unfolding last th by blast
  with h show "fst (Update ?mc load_ratio t) = Diagnostic"
    by (simp add: Update_def Let_def)
qed

text \<open>
  A LatencySpike of ratio 1, under the default trigger 1.25, changes no mode; notified to a
  controller in Diagnostic with timestamp 7 s, it holds Diagnostic against a load ratio of
  0 at 11.999999999 s.
\<close>

theorem C10_anomaly_hold_witness:
  "mc_mode (snd (NotifyAnomaly (ModeController_init default_thresholds\<lparr>mc_mode := Diagnostic\<rparr>)
        \<lparr>type = LatencySpike, ratio = 1, value = 0, timestamp_ns = 7000000000\<rparr> 7000000100))
     = Diagnostic
   \<and> mc_last_anomaly_ns
       (snd (NotifyAnomaly (ModeController_init default_thresholds\<lparr>mc_mode := Diagnostic\<rparr>)
        \<lparr>type = LatencySpike, ratio = 1, value = 0, timestamp_ns = 7000000000\<rparr> 7000000100))
     = 7000000000
   \<and> fst (Update
     (snd (NotifyAnomaly (ModeController_init default_thresholds\<lparr>mc_mode := Diagnostic\<rparr>)
        \<lparr>type = LatencySpike, ratio = 1, value = 0, timestamp_ns = 7000000000\<rparr> 7000000100))
     0 11999999999) = Diagnostic"
proof -
  let ?mc = "ModeController_init default_thresholds\<lparr>mc_mode := Diagnostic\<rparr>"
  let ?sig = "\<lparr>type = LatencySpike, ratio = 1, value = 0, timestamp_ns = 7000000000\<rparr>"
  have m: "mc_mode (snd (NotifyAnomaly ?mc ?sig 7000000100)) = Diagnostic"
    by (simp add: NotifyAnomaly_def ModeController_init_def default_thresholds_def Let_def)
  have q: "anomaly_quiet_period (mc_thresholds ?mc) = 5000"
    by (simp add: ModeController_init_def default_thresholds_def)
  note C10 = C10_anomaly_hold [of ?mc ?sig 7000000100 11999999999 0]
  have l: "mc_last_anomaly_ns (snd (NotifyAnomaly ?mc ?sig 7000000100)) = 7000000000"
    using C10 by simp
  have u: "fst (Update (snd (NotifyAnomaly ?mc ?sig 7000000100)) 0 11999999999) = Diagnostic"
    using C10 m q by simp
  show ?thesis using m l u by simp
qed

section \<open>Monitoring targets (control_messages.h, monitoring_targets.h, monitoring_targets.cpp)\<close>




subsection \<open>Claim C4\<close>




section \<open>Skew adjuster (skew_adjuster.h, skew_adjuster.cpp)\<close>

subsection \<open>Only the flow identifier is rewritten\<close>

lemma set_flow_set_flow: "set_flow f (set_flow g b) = set_flow f b"
  by (simp add: set_flow_def)

lemma adjust_entry_length: "length (adjust_entry tol i entries) = length entries"
  by (simp add: adjust_entry_def Let_def)

lemma adjust_entry_frame:
  "map (set_flow 0) (adjust_entry tol i entries) = map (set_flow 0) entries"
proof (cases "i < length entries")
  case True
  have "map (set_flow 0) (entries[i := set_flow f (entries ! i)]) = map (set_flow 0) entries" for f
    using True by (simp add: map_update set_flow_set_flow list_update_same_conv)
  then show ?thesis by (simp add: adjust_entry_def Let_def)
next
  case False
  then have "length entries \<le> i"
    by simp
  then have "entries[i := x] = entries" for x
    by (rule list_update_beyond)
  then show ?thesis by (simp add: adjust_entry_def Let_def)
qed

lemma fold_adjust_entry_frame:
  "map (set_flow 0) (fold (adjust_entry tol) is entries) = map (set_flow 0) entries"
  by (induction "is" arbitrary: entries) (simp_all add: adjust_entry_frame)

lemma AdjustWindow_frame: "map (set_flow 0) (AdjustWindow tol entries) = map (set_flow 0) entries"
  by (simp add: AdjustWindow_def fold_adjust_entry_frame)

lemma AdjustWindow_length: "length (AdjustWindow tol entries) = length entries"
  using AdjustWindow_frame [of tol entries, THEN arg_cong, of length] by simp

lemma drain_to_one_concat:
  "drain_to_one entries out_ready = (entries', out') \<Longrightarrow> out' @ entries' = out_ready @ entries"
  by (induction entries out_ready rule: drain_to_one.induct) auto

lemma DrainReady_concat:
  assumes "DrainReady mw entries out_ready = (entries', out')"
  shows "out' @ entries' = out_ready @ entries"
proof -
  obtain es1 out1 where d: "drain_to_one entries out_ready = (es1, out1)"
    by (cases "drain_to_one entries out_ready")
  from drain_to_one_concat [OF d] have c: "out1 @ es1 = out_ready @ entries" .
  from assms d c show ?thesis
    by (cases es1) (auto simp: DrainReady_def split: if_splits)
qed

lemma set_flow_eq_fields:
  assumes "set_flow 0 b' = set_flow 0 b"
  shows "bundle_stack b' = bundle_stack b \<and> b' = set_flow (bundle_flow b') b"
proof -
  have "bundle_stack (set_flow 0 b') = bundle_stack (set_flow 0 b)"
    using assms by simp
  then have s: "bundle_stack b' = bundle_stack b" by (simp add: set_flow_def)
  have "set_flow (bundle_flow b') (set_flow 0 b') = set_flow (bundle_flow b') (set_flow 0 b)"
    using assms by simp
  then have "set_flow (bundle_flow b') b' = set_flow (bundle_flow b') b"
    by (simp only: set_flow_set_flow)
  moreover have "set_flow (bundle_flow b') b' = b'"
    by (simp add: set_flow_def bundle_flow_def)
  ultimately show ?thesis using s by simp
qed

lemma EnsureCpu_length: "unat c < length (EnsureCpu c windows)"
  by (simp add: EnsureCpu_def)

lemma Process_frame:
  assumes "Process sa smp stk True = (sa', ready)"
  shows "map (set_flow 0) (ready @ per_cpu sa' ! unat (cpu smp))
           = map (set_flow 0) (EnsureCpu (cpu smp) (per_cpu sa) ! unat (cpu smp)
                                 @ [\<lparr>bundle_sample = smp, bundle_stack = stk\<rparr>])"
proof -
  let ?windows = "EnsureCpu (cpu smp) (per_cpu sa)"
  let ?window = "?windows ! unat (cpu smp) @ [\<lparr>bundle_sample = smp, bundle_stack = stk\<rparr>]"
  obtain window' out' where
    d: "DrainReady (max_window sa) (AdjustWindow (tolerance_ns sa) ?window) [] = (window', out')"
    by (cases "DrainReady (max_window sa) (AdjustWindow (tolerance_ns sa) ?window) []")
  from assms d have r: "ready = out'" and s: "sa' = sa\<lparr>per_cpu := ?windows[unat (cpu smp) := window']\<rparr>"
    by (simp_all add: Process_def Let_def)
  have w: "per_cpu sa' ! unat (cpu smp) = window'"
    by (simp add: s EnsureCpu_length)
  from DrainReady_concat [OF d] have "out' @ window' = AdjustWindow (tolerance_ns sa) ?window"
    by simp
  then have "map (set_flow 0) (out' @ window') = map (set_flow 0) ?window"
    by (simp only: AdjustWindow_frame)
  then show ?thesis by (simp only: r w)
qed

subsection \<open>Claim C6\<close>

text \<open>
  C6. \<^verbatim>\<open>AdjustWindow\<close> keeps the length and the order of the window, and each entry
  after it is the entry before it with, at most, another \<^verbatim>\<open>flow_id\<close>: the branch stack
  and the sample with its \<^verbatim>\<open>flow_id\<close> overwritten are the same, so \<^verbatim>\<open>tsc\<close>, \<^verbatim>\<open>cpu\<close>, \<^verbatim>\<open>pid\<close>,
  \<^verbatim>\<open>ip\<close> and every other field are. The same holds through \<^verbatim>\<open>Process\<close>: the bundles it
  emits, followed by those it keeps in the CPU's window, are the bundles of the window
  before the call followed by the new one, in this order, but for their \<^verbatim>\<open>flow_id\<close>.
\<close>

theorem C6_backfill_frame:
  "length (AdjustWindow tol entries) = length entries
   \<and> (\<forall>i < length entries.
         bundle_stack (AdjustWindow tol entries ! i) = bundle_stack (entries ! i)
       \<and> bundle_sample (AdjustWindow tol entries ! i)
           = (bundle_sample (entries ! i))
               \<lparr>flow_id := flow_id (bundle_sample (AdjustWindow tol entries ! i))\<rparr>
       \<and> tsc (bundle_sample (AdjustWindow tol entries ! i)) = tsc (bundle_sample (entries ! i))
       \<and> cpu (bundle_sample (AdjustWindow tol entries ! i)) = cpu (bundle_sample (entries ! i))
       \<and> pid (bundle_sample (AdjustWindow tol entries ! i)) = pid (bundle_sample (entries ! i))
       \<and> ip (bundle_sample (AdjustWindow tol entries ! i)) = ip (bundle_sample (entries ! i)))
   \<and> (Process sa smp stk True = (sa', ready) \<longrightarrow>
        map (set_flow 0) (ready @ per_cpu sa' ! unat (cpu smp))
          = map (set_flow 0) (EnsureCpu (cpu smp) (per_cpu sa) ! unat (cpu smp)
                                @ [\<lparr>bundle_sample = smp, bundle_stack = stk\<rparr>]))"
proof (intro conjI allI impI)
  show "length (AdjustWindow tol entries) = length entries"
    by (rule AdjustWindow_length)
next
  fix i
  assume i: "i < length entries"
  let ?b' = "AdjustWindow tol entries ! i" and ?b = "entries ! i"
  have "map (set_flow 0) (AdjustWindow tol entries) ! i = map (set_flow 0) entries ! i"
    by (simp only: AdjustWindow_frame)
  then have "set_flow 0 ?b' = set_flow 0 ?b"
    using i by (simp add: AdjustWindow_length)
  from set_flow_eq_fields [OF this]
  have st: "bundle_stack ?b' = bundle_stack ?b" and eq: "?b' = set_flow (bundle_flow ?b') ?b"
    by simp_all
  show "bundle_stack ?b' = bundle_stack ?b" by (rule st)
  have "bundle_sample ?b' = bundle_sample (set_flow (bundle_flow ?b') ?b)"
    using eq by simp
  then show sm: "bundle_sample ?b' = (bundle_sample ?b)\<lparr>flow_id := flow_id (bundle_sample ?b')\<rparr>"
    by (simp add: set_flow_def bundle_flow_def)
  show "tsc (bundle_sample ?b') = tsc (bundle_sample ?b)"
    using sm [THEN arg_cong, of tsc] by simp
  show "cpu (bundle_sample ?b') = cpu (bundle_sample ?b)"
    using sm [THEN arg_cong, of cpu] by simp
  show "pid (bundle_sample ?b') = pid (bundle_sample ?b)"
    using sm [THEN arg_cong, of pid] by simp
  show "ip (bundle_sample ?b') = ip (bundle_sample ?b)"
    using sm [THEN arg_cong, of ip] by simp
next
  assume "Process sa smp stk True = (sa', ready)"
  then show "map (set_flow 0) (ready @ per_cpu sa' ! unat (cpu smp))
          = map (set_flow 0) (EnsureCpu (cpu smp) (per_cpu sa) ! unat (cpu smp)
                                @ [\<lparr>bundle_sample = smp, bundle_stack = stk\<rparr>])"
    by (rule Process_frame)
qed

lemma AdjustWindow_test_window:
  "AdjustWindow 2000 test_window = [set_flow 42 (test_window ! 0), test_window ! 1]"
  by code_simp

text \<open>In the test window the first entry adopts flow 42 and keeps everything else.\<close>

theorem C6_backfill_frame_witness:
  "0 < length test_window
   \<and> flow_id (bundle_sample (test_window ! 0)) = 0
   \<and> flow_id (bundle_sample (AdjustWindow 2000 test_window ! 0)) = 42
   \<and> tsc (bundle_sample (AdjustWindow 2000 test_window ! 0)) = 100
   \<and> cpu (bundle_sample (AdjustWindow 2000 test_window ! 0)) = 0
   \<and> pid (bundle_sample (AdjustWindow 2000 test_window ! 0)) = 7
   \<and> ip (bundle_sample (AdjustWindow 2000 test_window ! 0)) = 4660
   \<and> bundle_stack (AdjustWindow 2000 test_window ! 0) = [\<lparr>lbr_from = 1, lbr_to = 2\<rparr>]"
proof -
  have l: "0 < length test_window"
    by (simp add: test_window_def)
  have z: "flow_id (bundle_sample (test_window ! 0)) = 0"
    by (simp add: test_window_def zero_sample_def)
  have f: "flow_id (bundle_sample (AdjustWindow 2000 test_window ! 0)) = 42"
    by (simp add: AdjustWindow_test_window set_flow_def)
  have "bundle_stack (AdjustWindow 2000 test_window ! 0) = bundle_stack (test_window ! 0)
       \<and> tsc (bundle_sample (AdjustWindow 2000 test_window ! 0)) = tsc (bundle_sample (test_window ! 0))
       \<and> cpu (bundle_sample (AdjustWindow 2000 test_window ! 0)) = cpu (bundle_sample (test_window ! 0))
       \<and> pid (bundle_sample (AdjustWindow 2000 test_window ! 0)) = pid (bundle_sample (test_window ! 0))
       \<and> ip (bundle_sample (AdjustWindow 2000 test_window ! 0)) = ip (bundle_sample (test_window ! 0))"
    using C6_backfill_frame [of 2000 test_window] l by blast
  then have "bundle_stack (AdjustWindow 2000 test_window ! 0) = [\<lparr>lbr_from = 1, lbr_to = 2\<rparr>]
       \<and> tsc (bundle_sample (AdjustWindow 2000 test_window ! 0)) = 100
       \<and> cpu (bundle_sample (AdjustWindow 2000 test_window ! 0)) = 0
       \<and> pid (bundle_sample (AdjustWindow 2000 test_window ! 0)) = 7
       \<and> ip (bundle_sample (AdjustWindow 2000 test_window ! 0)) = 4660"
    by (simp add: test_window_def zero_sample_def)
  with l z f show ?thesis by simp
qed

subsection \<open>The rescan adopts the nearest flow in reach\<close>

lemma scan_pick: "scan tol t cands best = pick t (in_reach tol t cands) best"
proof (induction cands arbitrary: best)
  case Nil
  then show ?case by (simp add: in_reach_def)
next
  case (Cons c cands)
  obtain bd bf where b: "best = (bd, bf)" by (cases best)
  show ?case
  proof (cases "bundle_flow c = 0")
    case True
    then show ?thesis using Cons.IH [of best] by (simp add: b in_reach_def)
  next
    case False
    show ?thesis
    proof (cases "AbsDiff (bundle_tsc c) t \<le> tol")
      case far: False
      then have gt: "tol < AbsDiff (bundle_tsc c) t" by (simp add: not_le)
      have r: "in_reach tol t (c # cands) = []"
        using False far by (simp add: in_reach_def)
      show ?thesis
        using False gt by (simp add: b r)
    next
      case le: True
      then have ngt: "\<not> tol < AbsDiff (bundle_tsc c) t" by (simp add: not_less)
      have r: "in_reach tol t (c # cands) = c # in_reach tol t cands"
        using False le by (simp add: in_reach_def)
      show ?thesis
        using False ngt Cons.IH by (simp add: b r)
    qed
  qed
qed

lemma pick_append: "pick t (xs @ ys) best = pick t ys (pick t xs best)"
proof (induction xs arbitrary: best)
  case Nil
  then show ?case by simp
next
  case (Cons c xs)
  obtain bd bf where b: "best = (bd, bf)" by (cases best)
  show ?case using Cons.IH by (simp add: b)
qed

lemma pick_nearest:
  assumes "pick t cs (bd, bf) = (bd', bf')"
  shows "bd' \<le> bd \<and> (\<forall>d \<in> set cs. bd' \<le> AbsDiff (bundle_tsc d) t)
         \<and> ((bd', bf') = (bd, bf)
              \<or> (\<exists>c \<in> set cs. bd' = AbsDiff (bundle_tsc c) t \<and> bf' = bundle_flow c \<and> bd' < bd))"
  using assms
proof (induction cs arbitrary: bd bf)
  case Nil
  then show ?case by simp
next
  case (Cons c cs)
  let ?dc = "AbsDiff (bundle_tsc c) t"
  show ?case
  proof (cases "?dc < bd")
    case True
    with Cons.prems have "pick t cs (?dc, bundle_flow c) = (bd', bf')" by simp
    from Cons.IH [OF this]
    have a: "bd' \<le> ?dc" and m: "\<forall>d \<in> set cs. bd' \<le> AbsDiff (bundle_tsc d) t"
      and w: "(bd', bf') = (?dc, bundle_flow c)
              \<or> (\<exists>x \<in> set cs. bd' = AbsDiff (bundle_tsc x) t \<and> bf' = bundle_flow x \<and> bd' < ?dc)"
      by simp_all
    from a True have lt: "bd' < bd" by simp
    from w lt have "\<exists>x \<in> set (c # cs). bd' = AbsDiff (bundle_tsc x) t \<and> bf' = bundle_flow x \<and> bd' < bd"
      by auto
    with a m lt show ?thesis by simp
  next
    case False
    with Cons.prems have "pick t cs (bd, bf) = (bd', bf')" by simp
    from Cons.IH [OF this]
    have a: "bd' \<le> bd" and m: "\<forall>d \<in> set cs. bd' \<le> AbsDiff (bundle_tsc d) t"
      and w: "(bd', bf') = (bd, bf)
              \<or> (\<exists>x \<in> set cs. bd' = AbsDiff (bundle_tsc x) t \<and> bf' = bundle_flow x \<and> bd' < bd)"
      by simp_all
    from a False have "bd' \<le> ?dc" by simp
    with a m w show ?thesis by auto
  qed
qed

lemma best_for_pick:
  "best_for tol entries i = pick (bundle_tsc (entries ! i)) (neighbours tol entries i) (- 1, 0)"
  by (simp add: best_for_def neighbours_def scan_pick pick_append)

lemma in_reach_set:
  "c \<in> set (in_reach tol t cands)
     \<Longrightarrow> c \<in> set cands \<and> bundle_flow c \<noteq> 0 \<and> AbsDiff (bundle_tsc c) t \<le> tol"
  unfolding in_reach_def by (auto dest: set_takeWhileD)

lemma neighbours_set:
  assumes "c \<in> set (neighbours tol entries i)"
  shows "c \<in> set entries \<and> bundle_flow c \<noteq> 0
         \<and> AbsDiff (bundle_tsc c) (bundle_tsc (entries ! i)) \<le> tol"
  using assms
  by (auto simp: neighbours_def dest!: in_reach_set dest: in_set_takeD in_set_dropD)

text \<open>
  One step of the outer loop, on an entry without a flow: it adopts the flow of a nearest
  neighbour in reach, if one is nearer than \<open>2^64 - 1\<close>, and stays as it is otherwise.
\<close>

lemma adjust_entry_nearest:
  assumes "bundle_flow (entries ! i) = 0"
  shows "((\<forall>c \<in> set (neighbours tol entries i).
             AbsDiff (bundle_tsc c) (bundle_tsc (entries ! i)) = - 1)
          \<longrightarrow> adjust_entry tol i entries = entries)
       \<and> ((\<exists>c \<in> set (neighbours tol entries i).
             AbsDiff (bundle_tsc c) (bundle_tsc (entries ! i)) \<noteq> - 1)
          \<longrightarrow> (\<exists>c \<in> set (neighbours tol entries i).
                adjust_entry tol i entries = entries[i := set_flow (bundle_flow c) (entries ! i)]
                \<and> (\<forall>d \<in> set (neighbours tol entries i).
                      AbsDiff (bundle_tsc c) (bundle_tsc (entries ! i))
                        \<le> AbsDiff (bundle_tsc d) (bundle_tsc (entries ! i)))))"
proof -
  let ?t = "bundle_tsc (entries ! i)"
  let ?N = "neighbours tol entries i"
  obtain bd bf where p: "pick ?t ?N (- 1, 0) = (bd, bf)"
    by (cases "pick ?t ?N (- 1, 0)")
  from pick_nearest [OF p]
  have m: "\<forall>d \<in> set ?N. bd \<le> AbsDiff (bundle_tsc d) ?t"
    and w: "(bd, bf) = (- 1, 0)
            \<or> (\<exists>c \<in> set ?N. bd = AbsDiff (bundle_tsc c) ?t \<and> bf = bundle_flow c \<and> bd < - 1)"
    by simp_all
  have bf: "snd (best_for tol entries i) = bf"
    by (simp add: best_for_pick p)
  show ?thesis
  proof (intro conjI impI)
    assume far: "\<forall>c \<in> set ?N. AbsDiff (bundle_tsc c) ?t = - 1"
    from w far have "bf = 0" by auto
    then show "adjust_entry tol i entries = entries"
      by (simp add: adjust_entry_def bf Let_def)
  next
    assume "\<exists>c \<in> set ?N. AbsDiff (bundle_tsc c) ?t \<noteq> - 1"
    then obtain c0 where c0: "c0 \<in> set ?N" "AbsDiff (bundle_tsc c0) ?t \<noteq> - 1" by blast
    from m c0 have "bd \<le> AbsDiff (bundle_tsc c0) ?t" by simp
    moreover have "AbsDiff (bundle_tsc c0) ?t < - 1"
      using c0(2) by (simp add: word_order.not_eq_extremum)
    ultimately have "bd \<noteq> - 1" by auto
    with w obtain c where c: "c \<in> set ?N" "bd = AbsDiff (bundle_tsc c) ?t" "bf = bundle_flow c"
      by auto
    from neighbours_set [OF c(1)] have "bundle_flow c \<noteq> 0" by simp
    then have "adjust_entry tol i entries = entries[i := set_flow (bundle_flow c) (entries ! i)]"
      using assms by (simp add: adjust_entry_def bf c(3) Let_def)
    with c m show "\<exists>c \<in> set ?N.
        adjust_entry tol i entries = entries[i := set_flow (bundle_flow c) (entries ! i)]
        \<and> (\<forall>d \<in> set ?N. AbsDiff (bundle_tsc c) ?t \<le> AbsDiff (bundle_tsc d) ?t)"
      by auto
  qed
qed

text \<open>The pass over the window: entry \<open>i\<close> is settled at its own turn.\<close>

lemma adjust_entry_other: "j \<noteq> i \<Longrightarrow> adjust_entry tol j entries ! i = entries ! i"
  by (simp add: adjust_entry_def Let_def)

lemma fold_adjust_entry_other:
  "i \<notin> set js \<Longrightarrow> fold (adjust_entry tol) js entries ! i = entries ! i"
  by (induction js arbitrary: entries) (auto simp: adjust_entry_other)

lemma fold_adjust_entry_length: "length (fold (adjust_entry tol) js entries) = length entries"
  by (induction js arbitrary: entries) (simp_all add: adjust_entry_length)

lemma AdjustWindow_turn:
  assumes "2 \<le> length entries" and "i < length entries"
  shows "AdjustWindow tol entries ! i = adjust_entry tol i (before_turn tol entries i) ! i"
proof -
  have "[0 ..< length entries] = [0 ..< i] @ i # [Suc i ..< length entries]"
    using assms(2) by (metis upt_conv_Cons upt_add_eq_append le0 le_add_diff_inverse less_imp_le_nat)
  then have "fold (adjust_entry tol) [0 ..< length entries] entries
         = fold (adjust_entry tol) [Suc i ..< length entries]
             (adjust_entry tol i (before_turn tol entries i))"
    by (simp add: before_turn_def)
  moreover have "i \<notin> set [Suc i ..< length entries]" by simp
  ultimately show ?thesis
    using assms(1) by (simp add: AdjustWindow_def fold_adjust_entry_other)
qed

lemma before_turn_later:
  "i \<le> k \<Longrightarrow> before_turn tol entries i ! k = entries ! k"
  unfolding before_turn_def by (rule fold_adjust_entry_other) simp

lemma before_turn_length: "length (before_turn tol entries i) = length entries"
  by (simp add: before_turn_def fold_adjust_entry_length)

text \<open>
  The rescan, for every entry of the window that has no flow when its turn comes: the
  neighbours are read from the window as it is at that turn (the entries before \<open>i\<close> as
  this rescan has left them, the entries after \<open>i\<close> as they were). If some neighbour in
  reach is nearer than \<open>2^64 - 1\<close>, the entry leaves the rescan with the flow of a nearest
  neighbour in reach (a neighbour with a flow, within the tolerance, and no neighbour in
  reach is nearer); otherwise the entry is unchanged.
\<close>

lemma AdjustWindow_nearest:
  assumes "2 \<le> length entries" and "i < length entries" and "bundle_flow (entries ! i) = 0"
  shows "((\<forall>c \<in> set (neighbours tol (before_turn tol entries i) i).
             AbsDiff (bundle_tsc c) (bundle_tsc (entries ! i)) = - 1)
          \<longrightarrow> AdjustWindow tol entries ! i = entries ! i)
       \<and> ((\<exists>c \<in> set (neighbours tol (before_turn tol entries i) i).
             AbsDiff (bundle_tsc c) (bundle_tsc (entries ! i)) \<noteq> - 1)
          \<longrightarrow> (\<exists>c \<in> set (neighbours tol (before_turn tol entries i) i).
                AdjustWindow tol entries ! i = set_flow (bundle_flow c) (entries ! i)
                \<and> bundle_flow c \<noteq> 0
                \<and> AbsDiff (bundle_tsc c) (bundle_tsc (entries ! i)) \<le> tol
                \<and> (\<forall>d \<in> set (neighbours tol (before_turn tol entries i) i).
                      AbsDiff (bundle_tsc c) (bundle_tsc (entries ! i))
                        \<le> AbsDiff (bundle_tsc d) (bundle_tsc (entries ! i)))))"
proof -
  let ?w = "before_turn tol entries i"
  let ?N = "neighbours tol ?w i"
  have wi: "?w ! i = entries ! i"
    by (simp add: before_turn_later)
  have len: "i < length ?w"
    using assms(2) by (simp add: before_turn_length)
  have turn: "AdjustWindow tol entries ! i = adjust_entry tol i ?w ! i"
    using assms(1,2) by (rule AdjustWindow_turn)
  have flow: "bundle_flow (?w ! i) = 0"
    using assms(3) by (simp add: wi)
  note near = adjust_entry_nearest [OF flow, of tol, unfolded wi]
  show ?thesis
  proof (intro conjI impI)
    assume "\<forall>c \<in> set ?N. AbsDiff (bundle_tsc c) (bundle_tsc (entries ! i)) = - 1"
    with near have "adjust_entry tol i ?w = ?w" by blast
    then show "AdjustWindow tol entries ! i = entries ! i"
      by (simp add: turn wi)
  next
    assume "\<exists>c \<in> set ?N. AbsDiff (bundle_tsc c) (bundle_tsc (entries ! i)) \<noteq> - 1"
    with near obtain c where c: "c \<in> set ?N"
      and a: "adjust_entry tol i ?w = ?w[i := set_flow (bundle_flow c) (entries ! i)]"
      and m: "\<forall>d \<in> set ?N. AbsDiff (bundle_tsc c) (bundle_tsc (entries ! i))
                              \<le> AbsDiff (bundle_tsc d) (bundle_tsc (entries ! i))"
      by blast
    from neighbours_set [OF c] have "bundle_flow c \<noteq> 0"
      and "AbsDiff (bundle_tsc c) (bundle_tsc (entries ! i)) \<le> tol"
      by (simp_all add: wi)
    moreover have "AdjustWindow tol entries ! i = set_flow (bundle_flow c) (entries ! i)"
      using len by (simp add: turn a)
    ultimately show "\<exists>c \<in> set ?N.
        AdjustWindow tol entries ! i = set_flow (bundle_flow c) (entries ! i)
        \<and> bundle_flow c \<noteq> 0
        \<and> AbsDiff (bundle_tsc c) (bundle_tsc (entries ! i)) \<le> tol
        \<and> (\<forall>d \<in> set ?N. AbsDiff (bundle_tsc c) (bundle_tsc (entries ! i))
                            \<le> AbsDiff (bundle_tsc d) (bundle_tsc (entries ! i)))"
      using c m by blast
  qed
qed

subsection \<open>The rescan after each arrival\<close>

lemma AdjustWindow_keeps_flow:
  assumes "i < length entries" and "bundle_flow (entries ! i) \<noteq> 0"
  shows "AdjustWindow tol entries ! i = entries ! i"
proof (cases "2 \<le> length entries")
  case True
  have "bundle_flow (before_turn tol entries i ! i) \<noteq> 0"
    using assms(2) by (simp add: before_turn_later)
  then have "adjust_entry tol i (before_turn tol entries i) = before_turn tol entries i"
    by (simp add: adjust_entry_def)
  then show ?thesis
    by (simp add: AdjustWindow_turn [OF True assms(1)] before_turn_later)
next
  case False
  then show ?thesis by (simp add: AdjustWindow_def)
qed

lemma neighbours_short:
  assumes "length entries < 2" and "i < length entries"
  shows "neighbours tol (before_turn tol entries i) i = []"
proof -
  from assms have i: "i = 0" and l: "length entries = 1" by simp_all
  then obtain b where "entries = [b]"
    by (cases entries) simp_all
  then show ?thesis
    by (simp add: i neighbours_def before_turn_def in_reach_def)
qed

lemma neighbours_below_max:
  assumes "tol < - 1" and "c \<in> set (neighbours tol w i)"
  shows "AbsDiff (bundle_tsc c) (bundle_tsc (w ! i)) \<noteq> - 1"
proof
  assume "AbsDiff (bundle_tsc c) (bundle_tsc (w ! i)) = - 1"
  with neighbours_set [OF assms(2)] have "- 1 \<le> tol" by simp
  with assms(1) show False by simp
qed

lemma Process_rescan:
  assumes "Process sa smp stk True = (sa', ready)"
  shows "ready @ per_cpu sa' ! unat (cpu smp)
           = AdjustWindow (tolerance_ns sa)
               (EnsureCpu (cpu smp) (per_cpu sa) ! unat (cpu smp)
                  @ [\<lparr>bundle_sample = smp, bundle_stack = stk\<rparr>])"
proof -
  let ?windows = "EnsureCpu (cpu smp) (per_cpu sa)"
  let ?window = "?windows ! unat (cpu smp) @ [\<lparr>bundle_sample = smp, bundle_stack = stk\<rparr>]"
  obtain window' out' where
    d: "DrainReady (max_window sa) (AdjustWindow (tolerance_ns sa) ?window) [] = (window', out')"
    by (cases "DrainReady (max_window sa) (AdjustWindow (tolerance_ns sa) ?window) []")
  from assms d have r: "ready = out'" and s: "sa' = sa\<lparr>per_cpu := ?windows[unat (cpu smp) := window']\<rparr>"
    by (simp_all add: Process_def Let_def)
  have w: "per_cpu sa' ! unat (cpu smp) = window'"
    by (simp add: s EnsureCpu_length)
  from DrainReady_concat [OF d] show ?thesis
    by (simp add: r w)
qed

text \<open>
  The concrete scenario of C5 (the repository's test): with tolerance 2000 and window 4,
  pushing \<open>{cpu = 0, tsc = 100, flow = 0}\<close> emits nothing, pushing
  \<open>{cpu = 0, tsc = 120, flow = 42}\<close> emits the first sample with flow 42, and the flush
  emits the second; the emissions are in insertion order.
\<close>

lemma skew_adjuster_scenario:
  "map (\<lambda>b. (tsc (bundle_sample b), flow_id (bundle_sample b)))
     (run_and_flush (SkewAdjuster_init 2000 4)
        [(zero_sample\<lparr>cpu := 0, tsc := 100, flow_id := 0\<rparr>, []),
         (zero_sample\<lparr>cpu := 0, tsc := 120, flow_id := 42\<rparr>, [])])
     = [(100, 42), (120, 42)]
   \<and> snd (Process (SkewAdjuster_init 2000 4)
             (zero_sample\<lparr>cpu := 0, tsc := 100, flow_id := 0\<rparr>) [] True) = []"
  by code_simp

text \<open>
  The tolerance \<^verbatim>\<open>UINT64_MAX\<close>. The search starts from \<^verbatim>\<open>best_delta = UINT64_MAX\<close> and
  adopts a candidate when \<^verbatim>\<open>delta < best_delta\<close>, so a neighbour exactly \<open>2^64 - 1\<close> away,
  which only this tolerance puts in reach, is not adopted. The repository constructs the
  adjuster with \<^verbatim>\<open>MS_FLOW_SKID_NS\<close> only.
\<close>

lemma rescan_at_max_tolerance:
  "AbsDiff 0 (- 1) \<le> tolerance_ns (SkewAdjuster_init (- 1) 4)
   \<and> map (\<lambda>b. (tsc (bundle_sample b), flow_id (bundle_sample b)))
       (run_and_flush (SkewAdjuster_init (- 1) 4)
          [(zero_sample\<lparr>cpu := 0, tsc := 0, flow_id := 0\<rparr>, []),
           (zero_sample\<lparr>cpu := 0, tsc := - 1, flow_id := 42\<rparr>, [])])
     = [(0, 0), (- 1, 42)]"
  by code_simp

subsection \<open>Claim C5\<close>

text \<open>
  C5, for every tolerance below \<^verbatim>\<open>UINT64_MAX\<close>, the 64-bit word \<open>- 1\<close>. \<^verbatim>\<open>Process\<close> appends
  the arrival to its CPU's queue and rescans the queue with \<^verbatim>\<open>AdjustWindow\<close>: what it emits,
  followed by what it keeps, is the rescanned queue. In the rescan, an entry that carries a flow keeps it.
  For an entry \<open>i\<close> without a flow, the neighbours in reach are searched in both
  directions, each search passing over entries without a flow and stopping at the first
  neighbour with a flow whose timestamp differs by more than the tolerance (the queue
  being read as the rescan has left the entries before \<open>i\<close>). If there is none in reach,
  the entry is unchanged; otherwise it adopts the flow of a nearest one: a neighbour with a
  non-zero flow, within the tolerance, such that no neighbour in reach is nearer. In the
  scenario of the claim the emissions are \<open>{tsc = 100, flow = 42}\<close> then
  \<open>{tsc = 120, flow = 42}\<close>.
\<close>

theorem C5_rescan_nearest:
  assumes "tol < - 1"
  shows "(\<forall>i < length entries. bundle_flow (entries ! i) = 0 \<longrightarrow>
            (neighbours tol (before_turn tol entries i) i = []
               \<longrightarrow> AdjustWindow tol entries ! i = entries ! i)
          \<and> (neighbours tol (before_turn tol entries i) i \<noteq> []
               \<longrightarrow> (\<exists>c \<in> set (neighbours tol (before_turn tol entries i) i).
                     AdjustWindow tol entries ! i = set_flow (bundle_flow c) (entries ! i)
                     \<and> bundle_flow c \<noteq> 0
                     \<and> AbsDiff (bundle_tsc c) (bundle_tsc (entries ! i)) \<le> tol
                     \<and> (\<forall>d \<in> set (neighbours tol (before_turn tol entries i) i).
                           AbsDiff (bundle_tsc c) (bundle_tsc (entries ! i))
                             \<le> AbsDiff (bundle_tsc d) (bundle_tsc (entries ! i))))))
       \<and> (\<forall>i < length entries. bundle_flow (entries ! i) \<noteq> 0 \<longrightarrow>
            AdjustWindow tol entries ! i = entries ! i)
       \<and> (tolerance_ns sa = tol \<longrightarrow> Process sa smp stk True = (sa', ready) \<longrightarrow>
            ready @ per_cpu sa' ! unat (cpu smp)
              = AdjustWindow tol (EnsureCpu (cpu smp) (per_cpu sa) ! unat (cpu smp)
                                    @ [\<lparr>bundle_sample = smp, bundle_stack = stk\<rparr>]))
       \<and> map (\<lambda>b. (tsc (bundle_sample b), flow_id (bundle_sample b)))
           (run_and_flush (SkewAdjuster_init 2000 4)
              [(zero_sample\<lparr>cpu := 0, tsc := 100, flow_id := 0\<rparr>, []),
               (zero_sample\<lparr>cpu := 0, tsc := 120, flow_id := 42\<rparr>, [])])
         = [(100, 42), (120, 42)]"
proof (intro conjI allI impI)
  fix i
  assume i: "i < length entries" and z: "bundle_flow (entries ! i) = 0"
  let ?N = "neighbours tol (before_turn tol entries i) i"
  have wi: "before_turn tol entries i ! i = entries ! i"
    by (simp add: before_turn_later)
  {
    assume e: "?N = []"
    show "AdjustWindow tol entries ! i = entries ! i"
    proof (cases "2 \<le> length entries")
      case True
      from AdjustWindow_nearest [OF True i z, of tol] e show ?thesis by simp
    next
      case False
      then show ?thesis by (simp add: AdjustWindow_def)
    qed
  }
  {
    assume ne: "?N \<noteq> []"
    have two: "2 \<le> length entries"
    proof (rule ccontr)
      assume "\<not> 2 \<le> length entries"
      then have "length entries < 2" by simp
      from neighbours_short [OF this i] ne show False by simp
    qed
    from ne obtain c0 where c0: "c0 \<in> set ?N"
      by (cases ?N) auto
    from neighbours_below_max [OF assms c0]
    have "AbsDiff (bundle_tsc c0) (bundle_tsc (entries ! i)) \<noteq> - 1"
      by (simp add: wi)
    with c0 have "\<exists>c \<in> set ?N. AbsDiff (bundle_tsc c) (bundle_tsc (entries ! i)) \<noteq> - 1"
      by blast
    with AdjustWindow_nearest [OF two i z, of tol]
    show "\<exists>c \<in> set ?N.
            AdjustWindow tol entries ! i = set_flow (bundle_flow c) (entries ! i)
            \<and> bundle_flow c \<noteq> 0
            \<and> AbsDiff (bundle_tsc c) (bundle_tsc (entries ! i)) \<le> tol
            \<and> (\<forall>d \<in> set ?N. AbsDiff (bundle_tsc c) (bundle_tsc (entries ! i))
                                \<le> AbsDiff (bundle_tsc d) (bundle_tsc (entries ! i)))"
      by blast
  }
next
  fix i
  assume "i < length entries" and "bundle_flow (entries ! i) \<noteq> 0"
  then show "AdjustWindow tol entries ! i = entries ! i"
    by (rule AdjustWindow_keeps_flow)
next
  assume "tolerance_ns sa = tol" and "Process sa smp stk True = (sa', ready)"
  then show "ready @ per_cpu sa' ! unat (cpu smp)
      = AdjustWindow tol (EnsureCpu (cpu smp) (per_cpu sa) ! unat (cpu smp)
                            @ [\<lparr>bundle_sample = smp, bundle_stack = stk\<rparr>])"
    using Process_rescan [of sa smp stk sa' ready] by simp
next
  show "map (\<lambda>b. (tsc (bundle_sample b), flow_id (bundle_sample b)))
           (run_and_flush (SkewAdjuster_init 2000 4)
              [(zero_sample\<lparr>cpu := 0, tsc := 100, flow_id := 0\<rparr>, []),
               (zero_sample\<lparr>cpu := 0, tsc := 120, flow_id := 42\<rparr>, [])])
         = [(100, 42), (120, 42)]"
    using skew_adjuster_scenario by simp
qed

lemma test_window_neighbours:
  "neighbours 2000 (before_turn 2000 test_window 0) 0 = [test_window ! 1]"
  by code_simp

text \<open>
  In the window of the repository's test, under the tolerance 2000, the first entry has
  no flow and one neighbour in reach, the second entry, 20 ns later with flow 42: the
  rescan gives it flow 42.
\<close>

theorem C5_rescan_nearest_witness:
  "(2000 :: u64) < - 1
   \<and> 0 < length test_window
   \<and> bundle_flow (test_window ! 0) = 0
   \<and> neighbours 2000 (before_turn 2000 test_window 0) 0 = [test_window ! 1]
   \<and> bundle_flow (test_window ! 1) = 42
   \<and> AdjustWindow 2000 test_window ! 0 = set_flow 42 (test_window ! 0)"
proof -
  let ?N = "neighbours 2000 (before_turn 2000 test_window 0) 0"
  have t: "(2000 :: u64) < - 1" by simp
  have l: "0 < length test_window"
    by (simp add: test_window_def)
  have z: "bundle_flow (test_window ! 0) = 0"
    by (simp add: test_window_def zero_sample_def bundle_flow_def)
  have f: "bundle_flow (test_window ! 1) = 42"
    by (simp add: test_window_def zero_sample_def bundle_flow_def)
  have n: "?N = [test_window ! 1]"
    by (rule test_window_neighbours)
  from C5_rescan_nearest [OF t, of test_window] l z
  have "?N \<noteq> [] \<longrightarrow> (\<exists>c \<in> set ?N.
          AdjustWindow 2000 test_window ! 0 = set_flow (bundle_flow c) (test_window ! 0))"
    by blast
  then have "AdjustWindow 2000 test_window ! 0 = set_flow 42 (test_window ! 0)"
    using f by (simp add: n)
  with t l z n f show ?thesis by simp
qed

section \<open>Aggregator (config.h, interference.h, aggregator.h, aggregator.cpp)\<close>

subsection \<open>The table\<close>

lemma bump_slot_map_fst:
  "map fst (bump_slot k w t) = (if k \<in> set (map fst t) then map fst t else map fst t @ [k])"
  by (induction t) (auto split: if_splits)

lemma bump_slot_keys: "set (map fst (bump_slot k w t)) = insert k (set (map fst t))"
  by (auto simp: bump_slot_map_fst)

lemma bump_slot_distinct: "distinct (map fst t) \<Longrightarrow> distinct (map fst (bump_slot k w t))"
  by (simp add: bump_slot_map_fst)



lemma unat_plus_one:
  fixes s :: u64
  assumes "unat s < 2 ^ 64 - 1"
  shows "unat (s + 1) = unat s + 1"
  using assms by (simp add: unat_word_ariths)

lemma samples_total_bound:
  "(k, v) \<in> set t \<Longrightarrow> unat (samples v) \<le> samples_total t"
  by (induction t) (auto simp: samples_total_def)

lemma bump_slot_samples_total:
  assumes "samples_total t < 2 ^ 64 - 1"
  shows "samples_total (bump_slot k w t) = samples_total t + 1"
  using assms
proof (induction t)
  case Nil
  then show ?case by (simp add: samples_total_def)
next
  case (Cons kv t)
  obtain k' v where kv: "kv = (k', v)" by (cases kv)
  have t: "samples_total (kv # t) = unat (samples v) + samples_total t"
    by (simp add: samples_total_def kv)
  show ?case
  proof (cases "k' = k")
    case True
    have "unat (samples v) < 2 ^ 64 - 1"
      using Cons.prems t by simp
    then have "unat (samples v + 1) = unat (samples v) + 1"
      by (rule unat_plus_one)
    then show ?thesis using True by (simp add: samples_total_def kv)
  next
    case False
    have "samples_total t < 2 ^ 64 - 1"
      using Cons.prems t by simp
    from Cons.IH [OF this] False show ?thesis
      by (simp add: samples_total_def kv)
  qed
qed

lemma emitted_loop_unat:
  "unat (emitted_loop t e) = (unat e + samples_total t) mod 2 ^ 64"
proof (induction t arbitrary: e)
  case Nil
  have "unat e < 2 ^ 64" using unsigned_less [of e] by simp
  then show ?case by (simp add: samples_total_def)
next
  case (Cons kv t)
  obtain k v where kv: "kv = (k, v)" by (cases kv)
  have "unat (emitted_loop (kv # t) e) = (unat (e + samples v) + samples_total t) mod 2 ^ 64"
    by (simp add: kv Cons.IH)
  also have "\<dots> = ((unat e + unat (samples v)) mod 2 ^ 64 + samples_total t) mod 2 ^ 64"
    by (simp add: unat_word_ariths)
  also have "\<dots> = (unat e + unat (samples v) + samples_total t) mod 2 ^ 64"
    by (simp add: mod_add_left_eq)
  finally show ?case by (simp add: samples_total_def kv add.assoc)
qed

lemma emitted_loop_sum:
  "emitted_loop t e = e + sum_list (map (\<lambda>kv. samples (snd kv)) t)"
  by (induction t arbitrary: e) (auto simp: add.assoc)

subsection \<open>Streams of samples\<close>

lemma make_key_table [simp]: "make_key (agg\<lparr>agg_table := t\<rparr>) smp stk = make_key agg smp stk"
  by (simp add: make_key_def Aggregator_InternFunction_def InternCallstack_def
      Aggregator_InternDataObject_def Bucketize_def)

lemma AddSample_fields [simp]:
  "agg_cfg (AddSample agg smp stk) = agg_cfg agg"
  "agg_symbolizer (AddSample agg smp stk) = agg_symbolizer agg"
  "sample_scale (AddSample agg smp stk) = sample_scale agg"
  by (simp_all add: AddSample_def Let_def)

lemma make_key_AddSample [simp]:
  "make_key (AddSample agg smp stk) smp' stk' = make_key agg smp' stk'"
  by (simp add: AddSample_def Let_def)

lemma keys_of_table [simp]: "keys_of (agg\<lparr>agg_table := t\<rparr>) ss = keys_of agg ss"
  by (simp add: keys_of_def)

lemma keys_of_AddSample [simp]: "keys_of (AddSample agg smp stk) ss = keys_of agg ss"
  by (simp add: keys_of_def)

lemma sample_weight_AddSample [simp]:
  "sample_weight (AddSample agg smp stk) smp' = sample_weight agg smp'"
  by (simp add: sample_weight_def)

lemma AddSample_distinct:
  "distinct (map fst (agg_table agg)) \<Longrightarrow> distinct (map fst (agg_table (AddSample agg smp stk)))"
  by (simp add: AddSample_def Let_def bump_slot_distinct)

lemma add_all_distinct:
  "distinct (map fst (agg_table agg)) \<Longrightarrow> distinct (map fst (agg_table (add_all agg ss)))"
proof (induction ss arbitrary: agg)
  case Nil
  then show ?case by simp
next
  case (Cons p ss)
  obtain smp stk where p: "p = (smp, stk)" by (cases p)
  from Cons.prems have "distinct (map fst (agg_table (AddSample agg smp stk)))"
    by (rule AddSample_distinct)
  from Cons.IH [OF this] show ?case by (simp add: p)
qed

text \<open>While the table stays within \<^verbatim>\<open>max_entries\<close>, every sample added is counted.\<close>

lemma add_all_counts:
  assumes "distinct (map fst (agg_table agg))"
    and "card (set (map fst (agg_table agg)) \<union> set (keys_of agg ss)) \<le> max_entries (agg_cfg agg)"
    and "samples_total (agg_table agg) + length ss < 2 ^ 64"
  shows "samples_total (agg_table (add_all agg ss)) = samples_total (agg_table agg) + length ss"
  using assms
proof (induction ss arbitrary: agg)
  case Nil
  then show ?case by simp
next
  case (Cons p ss)
  obtain smp stk where p: "p = (smp, stk)" by (cases p)
  let ?k = "make_key agg smp stk"
  let ?t1 = "bump_slot ?k (sample_weight agg smp) (agg_table agg)"
  let ?agg1 = "AddSample agg smp stk"
  have keys: "set (map fst (agg_table agg)) \<union> set (keys_of agg (p # ss))
                = set (map fst ?t1) \<union> set (keys_of agg ss)"
    using bump_slot_keys [of ?k "sample_weight agg smp" "agg_table agg"]
    by (auto simp: keys_of_def p)
  have d1: "distinct (map fst ?t1)"
    using Cons.prems(1) by (rule bump_slot_distinct)
  have "length ?t1 = card (set (map fst ?t1))"
    using distinct_card [OF d1] by simp
  also have "\<dots> \<le> card (set (map fst ?t1) \<union> set (keys_of agg ss))"
    by (rule card_mono) simp_all
  also have "\<dots> \<le> max_entries (agg_cfg agg)"
    using Cons.prems(2) by (simp only: keys)
  finally have fits: "length ?t1 \<le> max_entries (agg_cfg agg)" .
  then have t1: "agg_table ?agg1 = ?t1"
    by (simp add: AddSample_def Let_def)
  have "samples_total (agg_table agg) < 2 ^ 64 - 1"
    using Cons.prems(3) by simp
  then have n1: "samples_total ?t1 = samples_total (agg_table agg) + 1"
    by (rule bump_slot_samples_total)
  have "samples_total (agg_table (add_all ?agg1 ss)) = samples_total (agg_table ?agg1) + length ss"
  proof (rule Cons.IH)
    show "distinct (map fst (agg_table ?agg1))"
      by (simp only: t1 d1)
    show "card (set (map fst (agg_table ?agg1)) \<union> set (keys_of ?agg1 ss))
            \<le> max_entries (agg_cfg ?agg1)"
      using Cons.prems(2) by (simp only: t1 keys keys_of_AddSample AddSample_fields)
    show "samples_total (agg_table ?agg1) + length ss < 2 ^ 64"
      using Cons.prems(3) by (simp add: t1 n1)
  qed
  then show ?case by (simp add: p t1 n1)
qed


lemma Aggregator_Flush_simps:
  "fst (Aggregator_Flush agg) = agg\<lparr>agg_table := []\<rparr>"
  "fst (snd (Aggregator_Flush agg)) = agg_table agg"
  "snd (snd (Aggregator_Flush agg)) = sum_list (map (\<lambda>kv. samples (snd kv)) (agg_table agg))"
  by (simp_all add: Aggregator_Flush_def Let_def emitted_loop_sum)

lemma Aggregator_Flush_unat:
  "unat (snd (snd (Aggregator_Flush agg))) = samples_total (agg_table agg) mod 2 ^ 64"
  using emitted_loop_unat [of "agg_table agg" 0] by (simp add: Aggregator_Flush_def Let_def)

subsection \<open>Claim C1\<close>

text \<open>
  C1, as stated, fails when the overflow guard of \<^verbatim>\<open>AddSample\<close> fires: with
  \<^verbatim>\<open>max_entries = 1\<close>, two samples of different flows make the table exceed the bound, the
  table is shed, and the following \<^verbatim>\<open>Flush\<close> calls the callback for no entry and returns 0,
  not 2.
\<close>

theorem C1_counterexample:
  "length [(zero_sample\<lparr>flow_id := 1\<rparr>, []), (zero_sample\<lparr>flow_id := 2\<rparr>, [])] = 2
   \<and> fst (snd (Aggregator_Flush (add_all (fst (Aggregator_Flush small_aggregator))
        [(zero_sample\<lparr>flow_id := 1\<rparr>, []), (zero_sample\<lparr>flow_id := 2\<rparr>, [])]))) = []
   \<and> snd (snd (Aggregator_Flush (add_all (fst (Aggregator_Flush small_aggregator))
        [(zero_sample\<lparr>flow_id := 1\<rparr>, []), (zero_sample\<lparr>flow_id := 2\<rparr>, [])]))) = 0"
  by (simp add: small_aggregator_def Aggregator_init_def AddSample_def make_key_def
      zero_sample_def Let_def Aggregator_Flush_simps)

text \<open>
  C1, amended. \<^verbatim>\<open>Flush\<close> leaves an empty table, calls the callback once for each entry of
  the table it found (the keys of these entries are distinct) and returns the 64-bit sum
  of their \<^verbatim>\<open>samples\<close>. For the samples added since the previous flush, this value is their
  number, provided the number of distinct keys among them is at most \<^verbatim>\<open>max_entries\<close> (so
  that the overflow guard never sheds the table) and there are fewer than \<open>2^64\<close> of them.
\<close>

theorem C1_flush_total:
  "agg_table (fst (Aggregator_Flush agg)) = []
   \<and> fst (snd (Aggregator_Flush agg)) = agg_table agg
   \<and> snd (snd (Aggregator_Flush agg))
       = sum_list (map (\<lambda>kv. samples (snd kv)) (fst (snd (Aggregator_Flush agg))))
   \<and> distinct (map fst (fst (snd (Aggregator_Flush (add_all (fst (Aggregator_Flush agg)) ss)))))
   \<and> (card (set (keys_of agg ss)) \<le> max_entries (agg_cfg agg) \<and> length ss < 2 ^ 64
      \<longrightarrow> unat (snd (snd (Aggregator_Flush (add_all (fst (Aggregator_Flush agg)) ss))))
            = length ss)"
proof (intro conjI impI)
  let ?a = "fst (Aggregator_Flush agg)"
  have a: "?a = agg\<lparr>agg_table := []\<rparr>"
    by (simp add: Aggregator_Flush_simps)
  show "agg_table ?a = []" by (simp add: a)
  show "fst (snd (Aggregator_Flush agg)) = agg_table agg"
    by (simp add: Aggregator_Flush_simps)
  show "snd (snd (Aggregator_Flush agg))
       = sum_list (map (\<lambda>kv. samples (snd kv)) (fst (snd (Aggregator_Flush agg))))"
    by (simp add: Aggregator_Flush_simps)
  have "distinct (map fst (agg_table (add_all ?a ss)))"
    by (rule add_all_distinct) (simp add: a)
  then show "distinct (map fst (fst (snd (Aggregator_Flush (add_all ?a ss)))))"
    by (simp add: Aggregator_Flush_simps)
  assume h: "card (set (keys_of agg ss)) \<le> max_entries (agg_cfg agg) \<and> length ss < 2 ^ 64"
  have "samples_total (agg_table (add_all ?a ss)) = samples_total (agg_table ?a) + length ss"
  proof (rule add_all_counts)
    show "distinct (map fst (agg_table ?a))" by (simp add: a)
    show "card (set (map fst (agg_table ?a)) \<union> set (keys_of ?a ss)) \<le> max_entries (agg_cfg ?a)"
      using h by (simp add: a)
    show "samples_total (agg_table ?a) + length ss < 2 ^ 64"
      using h by (simp add: a samples_total_def)
  qed
  then have "samples_total (agg_table (add_all ?a ss)) = length ss"
    by (simp add: a samples_total_def)
  then show "unat (snd (snd (Aggregator_Flush (add_all ?a ss)))) = length ss"
    using h by (simp add: Aggregator_Flush_unat)
qed

lemma three_samples_table:
  "agg_table (add_all (fst (Aggregator_Flush roomy_aggregator)) three_samples)
     = [(make_key roomy_aggregator (zero_sample\<lparr>flow_id := 1, gso_segs := 1\<rparr>) [],
           \<lparr>samples = 2, norm_cost = 2\<rparr>),
        (make_key roomy_aggregator (zero_sample\<lparr>flow_id := 2, gso_segs := 1\<rparr>) [],
           \<lparr>samples = 1, norm_cost = 1\<rparr>)]"
  by (simp add: roomy_aggregator_def three_samples_def Aggregator_init_def AddSample_def
      make_key_def sample_weight_def zero_sample_def Let_def Aggregator_Flush_simps
      Aggregator_InternFunction_def InternCallstack_def Aggregator_InternDataObject_def
      Bucketize_def)

text \<open>
  Three samples on two flows, with room for two entries: the flush returns 3 and calls the
  callback for two entries, with 2 and 1 samples.
\<close>

theorem C1_flush_total_witness:
  "card (set (keys_of roomy_aggregator three_samples)) \<le> max_entries (agg_cfg roomy_aggregator)
   \<and> length three_samples < 2 ^ 64
   \<and> length three_samples = 3
   \<and> unat (snd (snd (Aggregator_Flush
        (add_all (fst (Aggregator_Flush roomy_aggregator)) three_samples)))) = 3
   \<and> map (\<lambda>kv. samples (snd kv)) (fst (snd (Aggregator_Flush
        (add_all (fst (Aggregator_Flush roomy_aggregator)) three_samples)))) = [2, 1]"
proof -
  have c: "card (set (keys_of roomy_aggregator three_samples)) \<le> max_entries (agg_cfg roomy_aggregator)"
    by (simp add: keys_of_def three_samples_def roomy_aggregator_def Aggregator_init_def
        make_key_def zero_sample_def card_insert_if)
  have l: "length three_samples = 3" "length three_samples < 2 ^ 64"
    by (simp_all add: three_samples_def)
  have u: "unat (snd (snd (Aggregator_Flush
        (add_all (fst (Aggregator_Flush roomy_aggregator)) three_samples)))) = length three_samples"
    using C1_flush_total [of roomy_aggregator three_samples] c l by blast
  have m: "map (\<lambda>kv. samples (snd kv)) (fst (snd (Aggregator_Flush
        (add_all (fst (Aggregator_Flush roomy_aggregator)) three_samples)))) = [2, 1]"
    by (simp add: Aggregator_Flush_simps(2) three_samples_table)
  show ?thesis using c l u m by simp
qed

subsection \<open>Claim C2\<close>




section \<open>False-sharing detector (symbolizer.h, fs_detector.h, fs_detector.cpp)\<close>

subsection \<open>What every finding satisfies\<close>

lemma cpu_scan_max:
  "cpu_scan hs (a, m) = (a', m') \<Longrightarrow> m \<le> m' \<and> (\<forall>h \<in> set hs. h \<le> m')"
proof (induction hs arbitrary: a m)
  case Nil
  then show ?case by simp
next
  case (Cons h hs)
  show ?case
  proof (cases "h = 0")
    case True
    with Cons.prems have "cpu_scan hs (a, m) = (a', m')" by simp
    from Cons.IH [OF this] True show ?thesis by simp
  next
    case False
    with Cons.prems have "cpu_scan hs (a + 1, max m h) = (a', m')" by simp
    from Cons.IH [OF this] have "max m h \<le> m'" and "\<forall>x \<in> set hs. x \<le> m'" by simp_all
    then show ?thesis by (simp add: max_def split: if_splits)
  qed
qed

lemma cpu_scan_active:
  "cpu_scan hs (a, m) = (a', m')
     \<Longrightarrow> unat a' = (unat a + length (filter (\<lambda>h. h \<noteq> 0) hs)) mod 2 ^ 64"
proof (induction hs arbitrary: a m)
  case Nil
  have "unat a < 2 ^ 64" using unsigned_less [of a] by simp
  with Nil show ?case by simp
next
  case (Cons h hs)
  show ?case
  proof (cases "h = 0")
    case True
    with Cons.prems have "cpu_scan hs (a, m) = (a', m')" by simp
    from Cons.IH [OF this] True show ?thesis by simp
  next
    case False
    with Cons.prems have "cpu_scan hs (a + 1, max m h) = (a', m')" by simp
    from Cons.IH [OF this]
    have "unat a' = (unat (a + 1) + length (filter (\<lambda>h. h \<noteq> 0) hs)) mod 2 ^ 64" .
    also have "\<dots> = ((unat a + 1) mod 2 ^ 64 + length (filter (\<lambda>h. h \<noteq> 0) hs)) mod 2 ^ 64"
      by (simp add: unat_word_ariths)
    also have "\<dots> = (unat a + 1 + length (filter (\<lambda>h. h \<noteq> 0) hs)) mod 2 ^ 64"
      by (simp add: mod_add_left_eq)
    finally show ?thesis using False by simp
  qed
qed

lemma report_Some:
  assumes "report d (line, stats) = Some f"
  shows "line_addr f = line
         \<and> threshold d \<le> total_hits stats
         \<and> 2 \<le> length (filter (\<lambda>h. h \<noteq> 0) (cpu_hits stats))
         \<and> (\<forall>h \<in> set (cpu_hits stats). real (unat h) < 9 / 10 * real (unat (total_hits stats)))"
proof -
  obtain active max_hits where sc: "cpu_scan (cpu_hits stats) (0, 0) = (active, max_hits)"
    by (cases "cpu_scan (cpu_hits stats) (0, 0)")
  from assms sc have th: "\<not> total_hits stats < threshold d" and ac: "\<not> active < 2"
    and dm: "\<not> dominance_ge max_hits (total_hits stats)" and ln: "line_addr f = line"
    by (auto simp: report_def Let_def split: if_splits)
  from cpu_scan_active [OF sc]
  have "unat active = length (filter (\<lambda>h. h \<noteq> 0) (cpu_hits stats)) mod 2 ^ 64" by simp
  moreover from ac have "2 \<le> unat active"
    by (simp add: word_less_nat_alt)
  ultimately have two: "2 \<le> length (filter (\<lambda>h. h \<noteq> 0) (cpu_hits stats))"
    using mod_less_eq_dividend [of "length (filter (\<lambda>h. h \<noteq> 0) (cpu_hits stats))" "2 ^ 64"]
    by simp
  from cpu_scan_max [OF sc] have mx: "\<forall>h \<in> set (cpu_hits stats). h \<le> max_hits" by simp
  from two have "filter (\<lambda>h. h \<noteq> 0) (cpu_hits stats) \<noteq> []"
    by auto
  then have "\<exists>h \<in> set (cpu_hits stats). h \<noteq> 0"
    by (simp only: filter_empty_conv) simp
  then obtain h0 where h0: "h0 \<in> set (cpu_hits stats)" "h0 \<noteq> 0"
    by blast
  with mx have "max_hits \<noteq> 0" by (auto simp: word_le_nat_alt unat_eq_zero)
  with dm have tz: "total_hits stats \<noteq> 0"
    and lt: "real (unat max_hits) / real (unat (total_hits stats)) < 9 / 10"
    by (auto simp: dominance_ge_def split: if_splits)
  from tz have "0 < unat (total_hits stats)"
    by (simp add: unat_gt_0)
  then have pos: "0 < real (unat (total_hits stats))"
    by (simp only: of_nat_0_less_iff)
  from lt pos have m9: "real (unat max_hits) < 9 / 10 * real (unat (total_hits stats))"
    by (simp add: pos_divide_less_eq)
  have "real (unat h) < 9 / 10 * real (unat (total_hits stats))" if "h \<in> set (cpu_hits stats)" for h
  proof -
    from mx that have "unat h \<le> unat max_hits" by (simp add: word_le_nat_alt)
    then have "real (unat h) \<le> real (unat max_hits)" by (simp only: of_nat_le_iff)
    with m9 show ?thesis by linarith
  qed
  with ln th two show ?thesis by (simp add: not_less)
qed

text \<open>
  Every finding that \<^verbatim>\<open>Flush\<close> emits is for a line of the table whose 64-bit difference
  \<^verbatim>\<open>now_tsc - last_tsc\<close> exceeds the window, with \<^verbatim>\<open>total_hits\<close> at least the threshold, at
  least two CPUs with hits, and every CPU's hits below 0.9 of the total.
\<close>

lemma Flush_findings_pass_filters:
  assumes "f \<in> set (snd (FalseSharingDetector_Flush d now_tsc))"
  shows "\<exists>stats. (line_addr f, stats) \<in> set (fs_table d)
           \<and> now_tsc - last_tsc stats > window_ns d
           \<and> threshold d \<le> total_hits stats
           \<and> 2 \<le> length (filter (\<lambda>h. h \<noteq> 0) (cpu_hits stats))
           \<and> (\<forall>h \<in> set (cpu_hits stats). real (unat h) < 9 / 10 * real (unat (total_hits stats)))"
proof -
  from assms obtain kv where kv: "kv \<in> set (fs_table d)" "expired d now_tsc (snd kv)"
    and r: "report d kv = Some f"
    by (auto simp: FalseSharingDetector_Flush_def Let_def List.map_filter_def)
  obtain line stats where p: "kv = (line, stats)" by (cases kv)
  from report_Some [OF r [unfolded p]] kv show ?thesis
    by (auto simp: p expired_def)
qed

subsection \<open>Claim C8\<close>

text \<open>
  C8 fails where the 64-bit difference wraps around. A detector with the default window of
  50 ms and threshold 2 observes two HITM samples on one cache line, from CPUs 0 and 1, both
  with timestamp 1000000000; its table then holds that line with \<^verbatim>\<open>last_tsc\<close> 1000000000.
  A flush with \<^verbatim>\<open>now_tsc = 999999999\<close>, one nanosecond before the line was last hit, finds
  \<^verbatim>\<open>now_tsc - last_tsc = 2^64 - 1\<close> above the window and emits a finding for the line,
  whose \<^verbatim>\<open>last_tsc\<close> is not older than the window relative to \<^verbatim>\<open>now_tsc\<close>. The flush at
  1000000001 rightly emits nothing.
\<close>

theorem C8_failing_input:
  "observe_all (FalseSharingDetector_init None 50000000 2)
     [hitm_sample 0 1000000000, hitm_sample 1 1000000000] = Some two_hits
   \<and> map (\<lambda>kv. last_tsc (snd kv)) (fs_table two_hits) = [1000000000]
   \<and> map line_addr (snd (FalseSharingDetector_Flush two_hits 999999999)) = [4096]
   \<and> snd (FalseSharingDetector_Flush two_hits 1000000001) = []"
proof (intro conjI)
  show "observe_all (FalseSharingDetector_init None 50000000 2)
     [hitm_sample 0 1000000000, hitm_sample 1 1000000000] = Some two_hits"
    by (simp add: Observe_def FalseSharingDetector_init_def hitm_sample_def zero_sample_def
        MS_EVT_XSNP_HITM_def observe_stats_def empty_stats_def resize_def two_hits_def Let_def)
  show "map (\<lambda>kv. last_tsc (snd kv)) (fs_table two_hits) = [1000000000]"
    by (simp add: two_hits_def)
  show "map line_addr (snd (FalseSharingDetector_Flush two_hits 999999999)) = [4096]"
    by code_simp
  show "snd (FalseSharingDetector_Flush two_hits 1000000001) = []"
    by code_simp
qed

section \<open>Doubles (IEEE 754 binary64)\<close>

lemma powi_nat: "0 \<le> k \<Longrightarrow> (2 :: real) powi k = 2 ^ nat k"
  by (simp add: power_int_def)

text \<open>The exponent brackets the number.\<close>

lemma expo_bracket:
  assumes "x \<noteq> 0"
  shows "2 powi expo x \<le> \<bar>x\<bar>" and "\<bar>x\<bar> < 2 powi (expo x + 1)"
proof -
  have "2 powi expo x \<le> \<bar>x\<bar> \<and> \<bar>x\<bar> < 2 powi (expo x + 1)"
  proof (cases "1 \<le> \<bar>x\<bar>")
    case True
    let ?n = "\<lfloor>\<bar>x\<bar>\<rfloor>"
    let ?b = "bitlen ?n"
    from True have n: "0 < ?n" by simp
    from bitlen_bounds [OF n] have lo: "2 ^ nat (?b - 1) \<le> ?n" and hi: "?n < 2 ^ nat ?b"
      by simp_all
    have b: "1 \<le> ?b" using n bitlen_eq_zero_iff [of ?n] bitlen_nonneg [of ?n] by linarith
    have e: "expo x = ?b - 1" using True by (simp add: expo_def)
    have "(2 :: real) ^ nat (?b - 1) \<le> of_int ?n"
      using lo by (metis of_int_le_iff of_int_numeral of_int_power)
    also have "\<dots> \<le> \<bar>x\<bar>" by simp
    finally have 1: "2 powi expo x \<le> \<bar>x\<bar>"
      using b by (simp add: e powi_nat)
    have "?n + 1 \<le> 2 ^ nat ?b" using hi by simp
    then have "of_int (?n + 1) \<le> (2 :: real) ^ nat ?b"
      by (metis of_int_le_iff of_int_numeral of_int_power)
    moreover have "\<bar>x\<bar> < of_int (?n + 1)" by simp
    ultimately have "\<bar>x\<bar> < 2 ^ nat ?b" by linarith
    then have 2: "\<bar>x\<bar> < 2 powi (expo x + 1)"
      using b by (simp add: e powi_nat)
    from 1 2 show ?thesis by simp
  next
    case False
    let ?y = "1 / \<bar>x\<bar>"
    let ?n = "\<lceil>?y\<rceil>"
    let ?k = "bitlen (?n - 1)"
    from False assms have x: "0 < \<bar>x\<bar>" "\<bar>x\<bar> < 1" by simp_all
    then have y: "1 < ?y" by simp
    then have n: "0 < ?n - 1" by linarith
    from bitlen_bounds [OF n] have lo: "2 ^ nat (?k - 1) \<le> ?n - 1" and hi: "?n - 1 < 2 ^ nat ?k"
      by simp_all
    have k: "1 \<le> ?k" using n bitlen_eq_zero_iff [of "?n - 1"] bitlen_nonneg [of "?n - 1"] by linarith
    have e: "expo x = - ?k" using False by (simp add: expo_def)
    have "?n \<le> 2 ^ nat ?k" using hi by simp
    then have "of_int ?n \<le> (2 :: real) ^ nat ?k"
      by (metis of_int_le_iff of_int_numeral of_int_power)
    moreover have "?y \<le> of_int ?n" by simp
    ultimately have "?y \<le> 2 ^ nat ?k" by linarith
    then have "1 \<le> 2 ^ nat ?k * \<bar>x\<bar>"
      using x(1) by (simp add: field_simps)
    then have 1: "2 powi expo x \<le> \<bar>x\<bar>"
      using k by (simp add: e power_int_minus powi_nat field_simps)
    have "(2 :: real) ^ nat (?k - 1) \<le> of_int (?n - 1)"
      using lo by (metis of_int_le_iff of_int_numeral of_int_power)
    moreover have "of_int (?n - 1) < ?y" by linarith
    ultimately have "2 ^ nat (?k - 1) < ?y" by linarith
    then have "2 ^ nat (?k - 1) * \<bar>x\<bar> < 1"
      using x(1) by (simp add: field_simps)
    then have lt: "\<bar>x\<bar> < 1 / 2 ^ nat (?k - 1)"
      by (simp add: field_simps)
    have "expo x + 1 = - (?k - 1)" by (simp add: e)
    then have "(2 :: real) powi (expo x + 1) = 1 / 2 powi (?k - 1)"
      by (simp only: power_int_minus_divide)
    also have "\<dots> = 1 / 2 ^ nat (?k - 1)"
      using k by (simp add: powi_nat)
    finally have 2: "\<bar>x\<bar> < 2 powi (expo x + 1)"
      using lt by simp
    from 1 2 show ?thesis by simp
  qed
  then show "2 powi expo x \<le> \<bar>x\<bar>" and "\<bar>x\<bar> < 2 powi (expo x + 1)" by simp_all
qed

lemma round_even_of_int [simp]: "round_even (of_int k) = k"
  by (simp add: round_even_def)

lemma round_even_error: "\<bar>of_int (round_even y) - y\<bar> \<le> 1 / 2"
proof -
  have "of_int \<lfloor>y\<rfloor> \<le> y" "y < of_int \<lfloor>y\<rfloor> + 1" by linarith+
  then show ?thesis
    by (auto simp: round_even_def Let_def)
qed

text \<open>
  A number \<open>m \<cdot> 2^e\<close> with \<open>\<bar>m\<bar> < 2^53\<close> and \<open>e \<ge> -1074\<close> is a double: rounding leaves it as
  it is.
\<close>

lemma fl_exact:
  assumes "\<bar>m\<bar> < 2 ^ 53" and "- 1074 \<le> e"
  shows "fl (of_int m * 2 powi e) = of_int m * 2 powi e"
proof (cases "m = 0")
  case True
  then show ?thesis by (simp add: fl_def)
next
  case False
  let ?x = "real_of_int m * 2 powi e"
  let ?u = "max (expo ?x - 52) (- 1074)"
  have x: "?x \<noteq> 0" using False by simp
  have "\<bar>?x\<bar> = real_of_int \<bar>m\<bar> * 2 powi e"
    by (simp add: abs_mult)
  also have "\<dots> < 2 ^ 53 * 2 powi e"
  proof -
    have "real_of_int \<bar>m\<bar> < 2 ^ 53"
      using assms(1) by (metis of_int_less_iff of_int_numeral of_int_power)
    then show ?thesis by (simp add: mult_strict_right_mono)
  qed
  also have "\<dots> = 2 powi (53 + e)"
    by (simp add: power_int_add)
  finally have lt: "2 powi expo ?x < (2 :: real) powi (53 + e)"
    using expo_bracket(1) [OF x] by linarith
  have "expo ?x < 53 + e"
  proof (rule ccontr)
    assume "\<not> expo ?x < 53 + e"
    then have "53 + e \<le> expo ?x" by simp
    then have "(2 :: real) powi (53 + e) \<le> 2 powi expo ?x"
      by (rule power_int_increasing) simp
    with lt show False by simp
  qed
  with assms(2) have u: "?u \<le> e" by simp
  have split: "(2 :: real) powi e = 2 ^ nat (e - ?u) * 2 powi ?u"
  proof -
    have "(2 :: real) powi e = 2 powi ((e - ?u) + ?u)" by simp
    also have "\<dots> = 2 powi (e - ?u) * 2 powi ?u"
      by (rule power_int_add) simp
    also have "2 powi (e - ?u) = (2 :: real) ^ nat (e - ?u)"
      using u by (simp add: powi_nat)
    finally show ?thesis .
  qed
  have "?x / 2 powi ?u = real_of_int m * 2 ^ nat (e - ?u)"
    by (subst split) simp
  also have "\<dots> = real_of_int (m * 2 ^ nat (e - ?u))"
    by simp
  finally have q: "round_even (?x / 2 powi ?u) = m * 2 ^ nat (e - ?u)"
    by (simp only: round_even_of_int)
  have "fl ?x = real_of_int (round_even (?x / 2 powi ?u)) * 2 powi ?u"
    using x by (simp add: fl_def Let_def)
  also have "\<dots> = real_of_int m * (2 ^ nat (e - ?u) * 2 powi ?u)"
    by (simp add: q)
  also have "\<dots> = ?x"
    by (simp only: split [symmetric])
  finally show ?thesis .
qed

text \<open>In the normal range the rounding error is at most \<open>2^-53\<close> of the number.\<close>

lemma fl_error:
  assumes "2 powi (- 1022) \<le> \<bar>x\<bar>"
  shows "\<bar>fl x - x\<bar> \<le> \<bar>x\<bar> / 2 ^ 53"
proof -
  have x: "x \<noteq> 0" using assms by auto
  let ?u = "expo x - 52"
  let ?y = "x / 2 powi ?u"
  have lt: "(2 :: real) powi (- 1022) < 2 powi (expo x + 1)"
    using assms expo_bracket(2) [OF x] by linarith
  have "- 1022 < expo x + 1"
  proof (rule ccontr)
    assume "\<not> - 1022 < expo x + 1"
    then have "expo x + 1 \<le> - 1022" by simp
    then have "(2 :: real) powi (expo x + 1) \<le> 2 powi (- 1022)"
      by (rule power_int_increasing) simp
    with lt show False by simp
  qed
  then have u: "max (expo x - 52) (- 1074) = ?u" by simp
  have f: "fl x = real_of_int (round_even ?y) * 2 powi ?u"
    using x by (simp add: fl_def Let_def u)
  have p: "(0 :: real) < 2 powi ?u" by simp
  have "fl x - x = (real_of_int (round_even ?y) - ?y) * 2 powi ?u"
    using p by (simp add: f field_simps)
  then have "\<bar>fl x - x\<bar> = \<bar>real_of_int (round_even ?y) - ?y\<bar> * 2 powi ?u"
    using p by (simp add: abs_mult)
  also have "\<dots> \<le> 1 / 2 * 2 powi ?u"
    using round_even_error [of ?y] p by (simp add: mult_right_mono)
  also have "\<dots> = 2 powi expo x / 2 ^ 53"
  proof -
    have "(2 :: real) powi expo x = 2 powi (?u + 52)" by simp
    also have "\<dots> = 2 powi ?u * 2 powi 52"
      by (rule power_int_add) simp
    finally show ?thesis by simp
  qed
  also have "\<dots> \<le> \<bar>x\<bar> / 2 ^ 53"
    using expo_bracket(1) [OF x] by (simp add: divide_right_mono)
  finally show ?thesis .
qed

lemma fl_bounds:
  assumes "1 / 2 ^ 64 \<le> x"
  shows "x * (1 - 1 / 2 ^ 53) \<le> fl x" and "fl x \<le> x * (1 + 1 / 2 ^ 53)"
proof -
  have "(2 :: real) powi (- 1022) \<le> 2 powi (- 64)"
    by (rule power_int_increasing) simp_all
  also have "\<dots> = 1 / 2 ^ 64" by (simp add: power_int_minus_divide)
  finally have "2 powi (- 1022) \<le> \<bar>x\<bar>" using assms by linarith
  from fl_error [OF this] have "\<bar>fl x - x\<bar> \<le> x / 2 ^ 53"
    using assms by (simp add: abs_of_pos)
  then have "fl x - x \<le> x / 2 ^ 53" and "- (x / 2 ^ 53) \<le> fl x - x"
    by linarith+
  then show "x * (1 - 1 / 2 ^ 53) \<le> fl x" and "fl x \<le> x * (1 + 1 / 2 ^ 53)"
    by (simp_all add: algebra_simps)
qed

text \<open>Integers and halves below \<open>2^53\<close> are doubles.\<close>

lemma fl_int: "\<bar>m\<bar> < 2 ^ 53 \<Longrightarrow> fl (of_int m) = of_int m"
  using fl_exact [of m 0] by simp

lemma fl_half: "\<bar>m\<bar> < 2 ^ 53 \<Longrightarrow> fl (of_int m / 2) = of_int m / 2"
  using fl_exact [of m "- 1"] by (simp add: power_int_minus field_simps)

lemma fl_numeral [simp]: "(numeral k :: int) < 2 ^ 53 \<Longrightarrow> fl (numeral k) = numeral k"
  using fl_int [of "numeral k"] by simp

lemma fl_neg_numeral [simp]: "(numeral k :: int) < 2 ^ 53 \<Longrightarrow> fl (- numeral k) = - numeral k"
  using fl_int [of "- numeral k"] by simp

lemma fl_numeral_half [simp]:
  "(numeral k :: int) < 2 ^ 53 \<Longrightarrow> fl (numeral k / 2) = numeral k / 2"
  using fl_half [of "numeral k"] by simp

lemma fl_neg_numeral_half [simp]:
  "(numeral k :: int) < 2 ^ 53 \<Longrightarrow> fl (- (numeral k / 2)) = - (numeral k / 2)"
  using fl_half [of "- numeral k"] by simp

lemma fl_0 [simp]: "fl 0 = 0"
  by (simp add: fl_def)

lemma fl_1 [simp]: "fl 1 = 1"
  using fl_int [of 1] by simp

lemma fl_one_half [simp]: "fl (1 / 2) = 1 / 2"
  using fl_half [of 1] by simp

text \<open>The doubles nearest to 0.001, 0.2 and 0.05, as far as the calibrator compares them.\<close>

lemma fl_milli: "fl (1 / 1000) < 1 / 2" "0 < fl (1 / 1000)"
  using fl_bounds [of "1 / 1000"] by simp_all

lemma fl_fifth: "fl (1 / 5) < 1 / 2" "fl (1 / 1000) < fl (1 / 5)"
  using fl_bounds [of "1 / 5"] fl_bounds [of "1 / 1000"] by simp_all

lemma fl_twentieth: "fl (1 / 20) = 3602879701896397 / 72057594037927936"
  by code_simp

lemma clamp_test_cfg [simp]:
  "clamp (1 / 2) kMinAlpha kMaxAlpha = 1 / 2"
  "clamp (fl (2 / 10)) kMinAlpha kMaxAlpha = fl (1 / 5)"
  using fl_milli fl_fifth by (simp_all add: clamp_def kMinAlpha_def kMaxAlpha_def)

lemma clamp_default_cfg:
  "clamp (fl (1 / 20)) kMinAlpha kMaxAlpha = 3602879701896397 / 72057594037927936"
  using fl_bounds [of "1 / 1000"] by (simp add: clamp_def kMinAlpha_def kMaxAlpha_def fl_twentieth)

section \<open>Time calibrator (config.h, tsc_calibrator.h, tsc_calibrator.cpp)\<close>

subsection \<open>A CPU in passthrough\<close>

lemma normalize_model_valid:
  assumes "valid_model m" and "normalize_model cfg m raw ref = (m1, r)"
  shows "valid_model m1"
  using assms
  by (auto simp: normalize_model_def valid_model_def Let_def split: if_splits)



subsection \<open>The calibrator\<close>

lemma EnsureModel_length: "unat c < length (EnsureModel c ms)"
  by (simp add: EnsureModel_def)


lemma EnsureModel_valid:
  "\<forall>m \<in> set ms. valid_model m \<Longrightarrow> \<forall>m \<in> set (EnsureModel c ms). valid_model m"
  by (auto simp: EnsureModel_def valid_model_def new_model_def)

lemma Normalize_enabled:
  assumes "enabled (cal_cfg cal)"
  shows "Normalize cal c raw ref =
           (cal\<lparr>models := (EnsureModel c (models cal))
                     [unat c := fst (normalize_model (cal_cfg cal) (EnsureModel c (models cal) ! unat c) raw ref)]\<rparr>,
            snd (normalize_model (cal_cfg cal) (EnsureModel c (models cal) ! unat c) raw ref))"
  using assms by (simp add: Normalize_def Let_def split_beta)

text \<open>The initial calibrator is valid, and \<^verbatim>\<open>Normalize\<close> keeps validity.\<close>

lemma Normalize_valid:
  assumes "valid_calibrator cal"
  shows "valid_calibrator (fst (Normalize cal c raw ref))"
proof (cases "enabled (cal_cfg cal)")
  case False
  then show ?thesis using assms by (simp add: Normalize_def)
next
  case True
  let ?ms = "EnsureModel c (models cal)"
  let ?r = "normalize_model (cal_cfg cal) (?ms ! unat c) raw ref"
  have all: "\<forall>m \<in> set ?ms. valid_model m"
    using assms by (simp add: valid_calibrator_def EnsureModel_valid)
  then have "valid_model (?ms ! unat c)"
    by (simp add: EnsureModel_length)
  then have "valid_model (fst ?r)"
    using normalize_model_valid [of "?ms ! unat c" "cal_cfg cal" raw ref "fst ?r" "snd ?r"]
    by simp
  with all have "\<forall>m \<in> set (?ms[unat c := fst ?r]). valid_model m"
    by (auto dest!: set_update_subset_insert [THEN subsetD])
  then show ?thesis
    by (simp add: Normalize_enabled [OF True] valid_calibrator_def)
qed


subsection \<open>Three samples of a calibrating CPU\<close>




subsection \<open>Claim C9\<close>





subsection \<open>Rounding in a calibrating CPU\<close>

lemma fl_2_60: "fl 1152921504606846976 = 1152921504606846976"
  by code_simp

lemma fl_2_60_1: "fl 1152921504606846977 = 1152921504606846976"
  by code_simp

lemma fl_2_60_2: "fl 1152921504606846978 = 1152921504606846976"
  by code_simp

lemma fl_first_offset: "fl (- 1152921504605846976) = - 1152921504605847040"
  by code_simp

lemma fl_offset: "fl (- 1152921504605847040) = - 1152921504605847040"
  by code_simp

lemma fl_alpha_offset:
  "fl (- (8112963841453632195881059588115 / 140737488355328)) = - 57646075230292352"
  by code_simp

lemma fl_one_minus_alpha:
  "fl (68454714336031539 / 72057594037927936) = 4278419646001971 / 4503599627370496"
  by code_simp

lemma fl_rest_offset:
  "fl (- (9634144561726187247446339774445 / 8796093022208)) = - 1095275429375554688"
  by code_simp

lemma ratio_above: "\<not> fl (18014398509481984 / 15625) < 3 / 2"
proof -
  have "18014398509481984 / 15625 * (1 - 1 / 2 ^ 53) \<le> fl (18014398509481984 / 15625)"
    by (rule fl_bounds(1)) simp
  moreover have "(3 / 2 :: real) \<le> 18014398509481984 / 15625 * (1 - 1 / 2 ^ 53)"
    by simp
  ultimately show ?thesis by linarith
qed

lemma default_cfg_first:
  "Normalize (TscCalibrator_init default_cfg) 0 1152921504606846977 1000000 =
     (\<lparr>cal_cfg = default_cfg,
       models = [\<lparr>slope = 1, offset = - 1152921504605847040,
                  last_raw = 1152921504606846977, last_ref = 1000000,
                  initialized = True, passthrough_steady_ns = False\<rparr>]\<rparr>, Some 1000000)"
  using ratio_above
  by (simp add: Normalize_def TscCalibrator_init_def default_cfg_def EnsureModel_def new_model_def
      normalize_model_def Let_def double_of_u64_def fl_2_60 fl_2_60_1 fl_first_offset)

text \<open>
  Rounding alone breaks the order as well. With the default configuration, CPU 0 is first
  seen with raw timestamp \<open>2^60 + 1\<close> at wall time 1000000, and again, at the same wall
  time, with raw timestamp \<open>2^60 + 2\<close>. Both timestamps round to the double \<open>2^60\<close>, the
  offset \<open>1000000 - 2^60\<close> rounds to \<open>999936 - 2^60\<close>, and the second sample is normalised to
  999936, below the 1000000 of the first.
\<close>

lemma Normalize_rounding:
  "(1152921504606846977 :: u64) < 1152921504606846978
   \<and> snd (Normalize (TscCalibrator_init default_cfg) 0 1152921504606846977 1000000)
       = Some 1000000
   \<and> snd (Normalize (fst (Normalize (TscCalibrator_init default_cfg) 0 1152921504606846977 1000000))
            0 1152921504606846978 1000000) = Some 999936"
proof -
  have "Normalize (fst (Normalize (TscCalibrator_init default_cfg) 0 1152921504606846977 1000000))
      0 1152921504606846978 1000000 =
     (\<lparr>cal_cfg = default_cfg,
       models = [\<lparr>slope = 1, offset = - 1152921504605847040,
                  last_raw = 1152921504606846978, last_ref = 1000000,
                  initialized = True, passthrough_steady_ns = False\<rparr>]\<rparr>, Some 999936)"
    by (simp only: default_cfg_first fst_conv)
      (simp add: Normalize_def default_cfg_def EnsureModel_def normalize_model_def Let_def
        double_of_u64_def u64_of_double_def clamp_default_cfg fl_2_60 fl_2_60_2
        fl_first_offset fl_offset fl_alpha_offset fl_one_minus_alpha fl_rest_offset)
  then show ?thesis
    by (simp add: default_cfg_first)
qed

end
